theory Spec2Isabelle
  imports Main "HOL-Library.Word"
begin

section \<open>Sparse vectors and matrices (sparmat.c, sparmat-U.c, sparmat.h)\<close>

text \<open>
  A sparse vector is a root (\<open>num_entries\<close>, \<open>entries\<close>) whose entries form a singly
  linked list of (index, value) nodes; the list of pairs below is that chain read from
  the root, \<open>next\<close> being the tail. \<open>num_entries = -1\<close> marks a deleted vector.
  Indices and counters are C \<open>int\<close>s that never get near their limits here and are
  modelled as \<open>int\<close>; entry values are modelled by the type parameter \<open>'v\<close>, which is
  \<open>32 word\<close> (a wrapping C \<open>int\<close>) for sparmat.c and a pair for sparmat-U.c.
  \<open>malloc\<close> is assumed to succeed.
\<close>

type_synonym SM_index_t = int

type_synonym 'v SparseEntry = "SM_index_t \<times> 'v"

record 'v SparseVector =
  num_entries :: SM_index_t
  entries :: "'v SparseEntry list"

record 'v SparseMatrix =
  num_rows :: SM_index_t
  num_cols :: SM_index_t
  rows :: "'v SparseVector list"
  columns :: "'v SparseVector list"

datatype error =
    Deleted           \<comment> \<open>"... vector is already deleted"\<close>
  | WrongIndices      \<comment> \<open>"check_m_indices: wrong matrix indices"\<close>
  | TooBig            \<comment> \<open>"... entry's value is too big"\<close>
  | Mismatch          \<comment> \<open>"... row and column entries don't match"\<close>
  | Sentinel          \<comment> \<open>a removed value compared equal to \<open>ERR_MVAL\<close>\<close>
  | NotEmptied        \<comment> \<open>"erase_m_colrow: num_entries is not 0 after erasing"\<close>
  | TooSmall          \<comment> \<open>"init_s_matrix: number of rows or columns is too small"\<close>
  | OutOfArray        \<comment> \<open>a vector pointer outside its array (undefined in C)\<close>
  | CheckFailed string  \<comment> \<open>a message of \<open>check_v_data\<close>\<close>

text \<open>
  The two builds of the library share their text except for the value type and the
  places collected here: the macros \<open>ABSFUNC\<close> and \<open>ENTRY_MAX\<close> of the header, the
  test \<open>val == ERR_MVAL\<close> that sparmat.c applies to a removed value (sparmat-U.c tests
  a separate status instead), and the admission test of \<open>add_m_entry\<close>.
\<close>

record 'v sm_build =
  ABSFUNC :: "'v \<Rightarrow> int"
  ENTRY_MAX :: int
  is_ERR_MVAL :: "'v \<Rightarrow> bool"
  too_big :: "'v \<Rightarrow> bool"

subsection \<open>The list walks\<close>

text \<open>The loop \<open>for (eptr = ...; eptr != NULL; ...) if (eptr->index >= ind) break;\<close>
  followed by the test \<open>eptr != NULL && eptr->index == ind\<close>.\<close>

fun find_entry :: "'v SparseEntry list \<Rightarrow> SM_index_t \<Rightarrow> 'v option" where
  "find_entry [] ind = None"
| "find_entry ((i, v) # es) ind =
     (if i \<ge> ind then (if i = ind then Some v else None) else find_entry es ind)"

text \<open>Unlinking the node found by that walk.\<close>

fun unlink_entry :: "'v SparseEntry list \<Rightarrow> SM_index_t \<Rightarrow> 'v SparseEntry list" where
  "unlink_entry [] ind = []"
| "unlink_entry ((i, v) # es) ind =
     (if i \<ge> ind then (if i = ind then es else (i, v) # es) else (i, v) # unlink_entry es ind)"

text \<open>Overwriting the node found, or linking a new node after \<open>prev\<close>.\<close>

fun link_entry :: "'v SparseEntry list \<Rightarrow> SM_index_t \<Rightarrow> 'v \<Rightarrow> 'v SparseEntry list" where
  "link_entry [] ind val = [(ind, val)]"
| "link_entry ((i, v) # es) ind val =
     (if i \<ge> ind then (if i = ind then (i, val) # es else (ind, val) # (i, v) # es)
      else (i, v) # link_entry es ind val)"

subsection \<open>Vector operations\<close>

definition get_v_entry :: "('v::zero) SparseVector \<Rightarrow> SM_index_t \<Rightarrow> 'v" where
  "get_v_entry vec ind = (case find_entry (entries vec) ind of Some v \<Rightarrow> v | None \<Rightarrow> 0)"

fun first_unit :: "('v \<Rightarrow> int) \<Rightarrow> 'v SparseEntry list \<Rightarrow> (SM_index_t \<times> 'v) option" where
  "first_unit absf [] = None"
| "first_unit absf ((i, v) # es) = (if absf v = 1 then Some (i, v) else first_unit absf es)"

text \<open>\<open>find_v_unit\<close>: \<open>Inr None\<close> is the return value 0, \<open>Inr (Some (i, v))\<close> the index
  \<open>i\<close> with \<open>v\<close> copied out.\<close>

definition find_v_unit ::
  "'v sm_build \<Rightarrow> 'v SparseVector \<Rightarrow> error + (SM_index_t \<times> 'v) option" where
  "find_v_unit b vec =
     (if num_entries vec = -1 then Inl Deleted
      else Inr (first_unit (ABSFUNC b) (entries vec)))"

definition remove_v_entry ::
  "('v::zero) SparseVector \<Rightarrow> SM_index_t \<Rightarrow> error + ('v \<times> 'v SparseVector)" where
  "remove_v_entry vec ind =
     (if num_entries vec = -1 then Inl Deleted
      else case find_entry (entries vec) ind of
             Some val \<Rightarrow> Inr (val, vec\<lparr>entries := unlink_entry (entries vec) ind,
                                        num_entries := num_entries vec - 1\<rparr>)
           | None \<Rightarrow> Inr (0, vec))"

definition add_v_entry ::
  "('v::zero) SparseVector \<Rightarrow> SM_index_t \<Rightarrow> 'v \<Rightarrow> error + 'v SparseVector" where
  "add_v_entry vec ind val =
     (if num_entries vec = -1 then Inl Deleted
      else if val = 0 then
        (case remove_v_entry vec ind of Inl e \<Rightarrow> Inr vec | Inr (_, vec') \<Rightarrow> Inr vec')
      else case find_entry (entries vec) ind of
             Some _ \<Rightarrow> Inr (vec\<lparr>entries := link_entry (entries vec) ind val\<rparr>)
           | None \<Rightarrow> Inr (vec\<lparr>entries := link_entry (entries vec) ind val,
                                num_entries := num_entries vec + 1\<rparr>))"

subsection \<open>Matrix operations\<close>

text \<open>\<open>base + i - 1\<close> for a 1-based index \<open>i\<close> into an array of vectors.\<close>

definition vec_at :: "'a list \<Rightarrow> SM_index_t \<Rightarrow> 'a option" where
  "vec_at vs i = (if 1 \<le> i \<and> i \<le> int (length vs) then Some (vs ! nat (i - 1)) else None)"

definition vec_upd :: "'a list \<Rightarrow> SM_index_t \<Rightarrow> 'a \<Rightarrow> 'a list" where
  "vec_upd vs i v = vs[nat (i - 1) := v]"

definition check_m_indices :: "'v SparseMatrix \<Rightarrow> SM_index_t \<Rightarrow> SM_index_t \<Rightarrow> bool" where
  "check_m_indices matr row col \<longleftrightarrow>
     \<not> (row < 1 \<or> row > num_rows matr \<or> col < 1 \<or> col > num_cols matr)"

definition get_m_entry ::
  "('v::zero) SparseMatrix \<Rightarrow> SM_index_t \<Rightarrow> SM_index_t \<Rightarrow> error + 'v" where
  "get_m_entry matr row col =
     (if \<not> check_m_indices matr row col then Inl WrongIndices
      else case (vec_at (rows matr) row, vec_at (columns matr) col) of
             (Some rv, Some cv) \<Rightarrow>
               (let val = get_v_entry rv col
                in if val \<noteq> get_v_entry cv row then Inl Mismatch else Inr val)
           | _ \<Rightarrow> Inl OutOfArray)"

definition remove_m_entry ::
  "('v::zero) sm_build \<Rightarrow> 'v SparseMatrix \<Rightarrow> SM_index_t \<Rightarrow> SM_index_t
     \<Rightarrow> error + ('v \<times> 'v SparseMatrix)" where
  "remove_m_entry b matr row col =
     (if \<not> check_m_indices matr row col then Inl WrongIndices
      else case (vec_at (rows matr) row, vec_at (columns matr) col) of
             (Some rv, Some cv) \<Rightarrow>
               (case remove_v_entry rv col of
                  Inl e \<Rightarrow> Inl e
                | Inr (valr, rv') \<Rightarrow>
                    if is_ERR_MVAL b valr then Inl Sentinel
                    else case remove_v_entry cv row of
                           Inl e \<Rightarrow> Inl e
                         | Inr (valc, cv') \<Rightarrow>
                             if is_ERR_MVAL b valc then Inl Sentinel
                             else if valr \<noteq> valc then Inl Mismatch
                             else Inr (valr, matr\<lparr>rows := vec_upd (rows matr) row rv',
                                                   columns := vec_upd (columns matr) col cv'\<rparr>))
           | _ \<Rightarrow> Inl OutOfArray)"

definition add_m_entry ::
  "('v::zero) sm_build \<Rightarrow> 'v SparseMatrix \<Rightarrow> SM_index_t \<Rightarrow> SM_index_t \<Rightarrow> 'v
     \<Rightarrow> error + 'v SparseMatrix" where
  "add_m_entry b matr row col val =
     (if \<not> check_m_indices matr row col then Inl WrongIndices
      else if too_big b val then Inl TooBig
      else if val = 0 then
        (case remove_m_entry b matr row col of Inl e \<Rightarrow> Inl e | Inr (_, matr') \<Rightarrow> Inr matr')
      else case (vec_at (rows matr) row, vec_at (columns matr) col) of
             (Some rv, Some cv) \<Rightarrow>
               (case add_v_entry rv col val of
                  Inl e \<Rightarrow> Inl e
                | Inr rv' \<Rightarrow>
                    (case add_v_entry cv row val of
                       Inl e \<Rightarrow> Inl e
                     | Inr cv' \<Rightarrow> Inr (matr\<lparr>rows := vec_upd (rows matr) row rv',
                                             columns := vec_upd (columns matr) col cv'\<rparr>)))
           | _ \<Rightarrow> Inl OutOfArray)"

text \<open>
  \<open>erase_m_colrow\<close>: the \<open>while\<close> loop over the vector being erased. The arguments are
  the chain still linked from the root, the counter of that vector and the orthogonal
  family; each round removes the mirror entry, compares the values and pops the head.
\<close>

fun erase_loop ::
  "('v::zero) sm_build \<Rightarrow> 'v SparseEntry list \<Rightarrow> SM_index_t \<Rightarrow> SM_index_t
     \<Rightarrow> 'v SparseVector list \<Rightarrow> error + (SM_index_t \<times> 'v SparseVector list)" where
  "erase_loop b [] n cr_ind others = Inr (n, others)"
| "erase_loop b ((i, v) # es) n cr_ind others =
     (case vec_at others i of
        None \<Rightarrow> Inl OutOfArray
      | Some ov \<Rightarrow>
          (case remove_v_entry ov cr_ind of
             Inl e \<Rightarrow> Inl e
           | Inr (val, ov') \<Rightarrow>
               if is_ERR_MVAL b val then Inl Sentinel
               else if val \<noteq> v then Inl Mismatch
               else erase_loop b es (n - 1) cr_ind (vec_upd others i ov')))"

definition erase_m_colrow ::
  "('v::zero) sm_build \<Rightarrow> 'v SparseVector \<Rightarrow> SM_index_t \<Rightarrow> 'v SparseVector list \<Rightarrow> bool
     \<Rightarrow> error + ('v SparseVector \<times> 'v SparseVector list)" where
  "erase_m_colrow b cr_vec cr_ind others do_del =
     (if num_entries cr_vec = -1 then Inl Deleted
      else case erase_loop b (entries cr_vec) (num_entries cr_vec) cr_ind others of
             Inl e \<Rightarrow> Inl e
           | Inr (n, others') \<Rightarrow>
               if n \<noteq> 0 then Inl NotEmptied
               else Inr (\<lparr>num_entries = (if do_del then -1 else n), entries = []\<rparr>, others'))"

definition erase_m_row ::
  "('v::zero) sm_build \<Rightarrow> 'v SparseMatrix \<Rightarrow> SM_index_t \<Rightarrow> bool \<Rightarrow> error + 'v SparseMatrix" where
  "erase_m_row b matr row do_del =
     (if \<not> check_m_indices matr row 1 then Inl WrongIndices
      else case vec_at (rows matr) row of
             None \<Rightarrow> Inl OutOfArray
           | Some rv \<Rightarrow>
               (case erase_m_colrow b rv row (columns matr) do_del of
                  Inl e \<Rightarrow> Inl e
                | Inr (rv', others') \<Rightarrow>
                    Inr (matr\<lparr>rows := vec_upd (rows matr) row rv', columns := others'\<rparr>)))"

definition erase_m_column ::
  "('v::zero) sm_build \<Rightarrow> 'v SparseMatrix \<Rightarrow> SM_index_t \<Rightarrow> bool \<Rightarrow> error + 'v SparseMatrix" where
  "erase_m_column b matr col do_del =
     (if \<not> check_m_indices matr 1 col then Inl WrongIndices
      else case vec_at (columns matr) col of
             None \<Rightarrow> Inl OutOfArray
           | Some cv \<Rightarrow>
               (case erase_m_colrow b cv col (rows matr) do_del of
                  Inl e \<Rightarrow> Inl e
                | Inr (cv', others') \<Rightarrow>
                    Inr (matr\<lparr>columns := vec_upd (columns matr) col cv', rows := others'\<rparr>)))"

text \<open>
  \<open>add_m_colrows\<close>: the merge loop. \<open>pre\<close> is the part of the first vector already
  passed (the nodes up to \<open>prev\<close>, last one first), \<open>es1\<close> and \<open>es2\<close> are the chains from
  \<open>eptr1\<close> and \<open>eptr2\<close>, \<open>n\<close> is the counter of the first vector. \<open>merge_step\<close> is the body
  after the value \<open>nv\<close> of the node \<open>prev\<close> has been written: the statistics, the bound
  test, the mirror update and the removal of a zero node. When both arguments are the
  same vector the two pointers advance together and every node is read just before it
  is written, so the chain \<open>es2\<close> read at entry is the chain the loop sees.
  A failing call leaves the matrix half updated in C; the model returns the error only.
\<close>

definition merge_step ::
  "('v::zero) sm_build \<Rightarrow> SM_index_t \<Rightarrow> SM_index_t \<Rightarrow> 'v \<Rightarrow> int \<Rightarrow> 'v SparseVector list
     \<Rightarrow> error + (int \<times> 'v SparseVector list)" where
  "merge_step b cr_ind1 i nv maxval others =
     (let maxval' = (if ABSFUNC b nv > maxval then ABSFUNC b nv else maxval)
      in if ABSFUNC b nv > ENTRY_MAX b then Inl TooBig
         else case vec_at others i of
                None \<Rightarrow> Inl OutOfArray
              | Some ov \<Rightarrow>
                  (case add_v_entry ov cr_ind1 nv of
                     Inl e \<Rightarrow> Inl e
                   | Inr ov' \<Rightarrow> Inr (maxval', vec_upd others i ov')))"

fun merge_loop ::
  "('v::{zero,plus,times}) sm_build \<Rightarrow> SM_index_t \<Rightarrow> 'v \<Rightarrow> 'v SparseEntry list
     \<Rightarrow> 'v SparseEntry list \<Rightarrow> 'v SparseEntry list \<Rightarrow> SM_index_t \<Rightarrow> int
     \<Rightarrow> 'v SparseVector list
     \<Rightarrow> error + (int \<times> 'v SparseEntry list \<times> SM_index_t \<times> 'v SparseVector list)" where
  "merge_loop b cr_ind1 scalar pre es1 [] n maxval others =
     Inr (maxval, rev pre @ es1, n, others)"
| "merge_loop b cr_ind1 scalar pre [] ((i2, v2) # es2) n maxval others =
     (let nv = scalar * v2
      in case merge_step b cr_ind1 i2 nv maxval others of
           Inl e \<Rightarrow> Inl e
         | Inr (maxval', others') \<Rightarrow>
             if nv = 0 then merge_loop b cr_ind1 scalar pre [] es2 (n + 1 - 1) maxval' others'
             else merge_loop b cr_ind1 scalar ((i2, nv) # pre) [] es2 (n + 1) maxval' others')"
| "merge_loop b cr_ind1 scalar pre ((i1, v1) # es1) ((i2, v2) # es2) n maxval others =
     (if i1 < i2 then
        merge_loop b cr_ind1 scalar ((i1, v1) # pre) es1 ((i2, v2) # es2) n maxval others
      else if i1 > i2 then
        (let nv = scalar * v2
         in case merge_step b cr_ind1 i2 nv maxval others of
              Inl e \<Rightarrow> Inl e
            | Inr (maxval', others') \<Rightarrow>
                if nv = 0 then
                  merge_loop b cr_ind1 scalar pre ((i1, v1) # es1) es2 (n + 1 - 1) maxval' others'
                else
                  merge_loop b cr_ind1 scalar ((i2, nv) # pre) ((i1, v1) # es1) es2 (n + 1)
                    maxval' others')
      else
        (let nv = v1 + scalar * v2
         in case merge_step b cr_ind1 i1 nv maxval others of
              Inl e \<Rightarrow> Inl e
            | Inr (maxval', others') \<Rightarrow>
                if nv = 0 then merge_loop b cr_ind1 scalar pre es1 es2 (n - 1) maxval' others'
                else merge_loop b cr_ind1 scalar ((i1, nv) # pre) es1 es2 n maxval' others'))"

definition add_m_colrows ::
  "('v::{zero,plus,times}) sm_build \<Rightarrow> 'v SparseVector \<Rightarrow> SM_index_t \<Rightarrow> 'v SparseVector
     \<Rightarrow> 'v SparseVector list \<Rightarrow> 'v
     \<Rightarrow> error + (int \<times> 'v SparseVector \<times> 'v SparseVector list)" where
  "add_m_colrows b cr_vec1 cr_ind1 cr_vec2 others scalar =
     (if num_entries cr_vec1 = -1 \<or> num_entries cr_vec2 = -1 then Inl Deleted
      else case merge_loop b cr_ind1 scalar [] (entries cr_vec1) (entries cr_vec2)
                  (num_entries cr_vec1) 0 others of
             Inl e \<Rightarrow> Inl e
           | Inr (maxval, es, n, others') \<Rightarrow>
               Inr (maxval, \<lparr>num_entries = n, entries = es\<rparr>, others'))"

definition add_m_rows ::
  "('v::{zero,plus,times}) sm_build \<Rightarrow> 'v SparseMatrix \<Rightarrow> SM_index_t \<Rightarrow> SM_index_t \<Rightarrow> 'v
     \<Rightarrow> error + (int \<times> 'v SparseMatrix)" where
  "add_m_rows b matr row1 row2 scalar =
     (if \<not> check_m_indices matr row1 1 then Inl WrongIndices
      else if \<not> check_m_indices matr row2 1 then Inl WrongIndices
      else case (vec_at (rows matr) row1, vec_at (rows matr) row2) of
             (Some v1, Some v2) \<Rightarrow>
               (case add_m_colrows b v1 row1 v2 (columns matr) scalar of
                  Inl e \<Rightarrow> Inl e
                | Inr (maxval, v1', others') \<Rightarrow>
                    Inr (maxval, matr\<lparr>rows := vec_upd (rows matr) row1 v1',
                                       columns := others'\<rparr>))
           | _ \<Rightarrow> Inl OutOfArray)"

definition add_m_cols ::
  "('v::{zero,plus,times}) sm_build \<Rightarrow> 'v SparseMatrix \<Rightarrow> SM_index_t \<Rightarrow> SM_index_t \<Rightarrow> 'v
     \<Rightarrow> error + (int \<times> 'v SparseMatrix)" where
  "add_m_cols b matr col1 col2 scalar =
     (if \<not> check_m_indices matr 1 col1 then Inl WrongIndices
      else if \<not> check_m_indices matr 1 col2 then Inl WrongIndices
      else case (vec_at (columns matr) col1, vec_at (columns matr) col2) of
             (Some v1, Some v2) \<Rightarrow>
               (case add_m_colrows b v1 col1 v2 (rows matr) scalar of
                  Inl e \<Rightarrow> Inl e
                | Inr (maxval, v1', others') \<Rightarrow>
                    Inr (maxval, matr\<lparr>columns := vec_upd (columns matr) col1 v1',
                                       rows := others'\<rparr>))
           | _ \<Rightarrow> Inl OutOfArray)"

definition init_s_matrix :: "SM_index_t \<Rightarrow> SM_index_t \<Rightarrow> error + 'v SparseMatrix" where
  "init_s_matrix n_rows n_cols =
     (if n_rows < 1 \<or> n_cols < 1 then Inl TooSmall
      else Inr \<lparr>num_rows = n_rows, num_cols = n_cols,
                rows = replicate (nat n_rows) \<lparr>num_entries = 0, entries = []\<rparr>,
                columns = replicate (nat n_cols) \<lparr>num_entries = 0, entries = []\<rparr>\<rparr>)"

subsection \<open>The integer build (sparmat.c with sparmat.h)\<close>

type_synonym SM_value_t = "32 word"

definition INT_MAX :: int where
  "INT_MAX = 2147483647"

definition ERR_MVAL :: SM_value_t where
  "ERR_MVAL = word_of_int INT_MAX"

text \<open>\<open>abs\<close> of a C \<open>int\<close>, wrapping at \<open>INT_MIN\<close>, read back as a signed number.\<close>

definition abs_int :: "SM_value_t \<Rightarrow> int" where
  "abs_int v = sint (if sint v < 0 then - v else v)"

definition sparmat_c :: "SM_value_t sm_build" where
  "sparmat_c = \<lparr>ABSFUNC = abs_int,
                ENTRY_MAX = INT_MAX div 2,
                is_ERR_MVAL = (\<lambda>val. val = ERR_MVAL),
                too_big = (\<lambda>val. sint val > INT_MAX div 2 \<or> sint val < - (INT_MAX div 2))\<rparr>"

text \<open>The value a C caller sees from \<open>get_m_entry\<close> and \<open>remove_m_entry\<close>: every
  failure is the sentinel \<open>ERR_MVAL\<close>.\<close>

definition get_m_entry_ret :: "SM_value_t SparseMatrix \<Rightarrow> SM_index_t \<Rightarrow> SM_index_t \<Rightarrow> SM_value_t" where
  "get_m_entry_ret matr row col =
     (case get_m_entry matr row col of Inl e \<Rightarrow> ERR_MVAL | Inr v \<Rightarrow> v)"

definition remove_m_entry_ret ::
  "SM_value_t SparseMatrix \<Rightarrow> SM_index_t \<Rightarrow> SM_index_t \<Rightarrow> SM_value_t" where
  "remove_m_entry_ret matr row col =
     (case remove_m_entry sparmat_c matr row col of Inl e \<Rightarrow> ERR_MVAL | Inr (v, _) \<Rightarrow> v)"

subsection \<open>The consistency checker of sparmat.c\<close>

text \<open>The checker is embedded for the integer build, where \<open>eptr->value == 0\<close> and
  \<open>val != eptr->value\<close> compare numbers. In sparmat-U.c the same two tests are applied to
  the array \<open>value\<close> itself and are not embedded.\<close>

text \<open>The \<open>for\<close> loop of \<open>check_v_data\<close>, with its counter \<open>i\<close> and \<open>oldind\<close>; the result
  is the final value of \<open>i\<close>. \<open>others = None\<close> is the \<open>NULL\<close> argument.\<close>

fun check_entries ::
  "SM_value_t SparseEntry list \<Rightarrow> int \<Rightarrow> SM_index_t \<Rightarrow> SM_index_t \<Rightarrow> SM_index_t
     \<Rightarrow> SM_value_t SparseVector list option \<Rightarrow> error + int" where
  "check_entries [] i oldind max_index v_ind others = Inr i"
| "check_entries ((ind, v) # es) i oldind max_index v_ind others =
     (if ind < 1 then Inl (CheckFailed ''index is not positive'')
      else if ind > max_index then Inl (CheckFailed ''index is too big'')
      else if ind \<le> oldind then Inl (CheckFailed ''index is not increasing'')
      else if v = 0 then Inl (CheckFailed ''value is 0'')
      else case others of
             None \<Rightarrow> check_entries es (i + 1) ind max_index v_ind others
           | Some ovs \<Rightarrow>
               (case vec_at ovs ind of
                  None \<Rightarrow> Inl OutOfArray
                | Some ov \<Rightarrow>
                    if get_v_entry ov v_ind \<noteq> v
                    then Inl (CheckFailed ''rows and columns don't match'')
                    else check_entries es (i + 1) ind max_index v_ind others))"

definition check_v_data ::
  "SM_value_t SparseVector \<Rightarrow> SM_index_t \<Rightarrow> SM_index_t \<Rightarrow> SM_value_t SparseVector list option
     \<Rightarrow> error + unit" where
  "check_v_data vec max_index v_ind others =
     (let n_entries = num_entries vec
      in if n_entries > max_index then Inl (CheckFailed ''number of entries is too big'')
         else if n_entries < -1 then Inl (CheckFailed ''number of entries is negative'')
         else if n_entries = -1 \<and> entries vec \<noteq> []
           then Inl (CheckFailed ''deleted vector is not empty'')
         else let n_entries = (if n_entries = -1 then 0 else n_entries)
              in case check_entries (entries vec) 1 (-1) max_index v_ind others of
                   Inl e \<Rightarrow> Inl e
                 | Inr i \<Rightarrow>
                     if i \<noteq> n_entries + 1 then Inl (CheckFailed ''wrong number of entries'')
                     else Inr ())"

text \<open>One \<open>for\<close> loop of \<open>check_m_data\<close> over a family of vectors; the list holds the
  values \<open>i + 1\<close> still to come.\<close>

fun check_family ::
  "SM_value_t SparseVector list \<Rightarrow> SM_index_t \<Rightarrow> SM_value_t SparseVector list \<Rightarrow> SM_index_t list
     \<Rightarrow> error + unit" where
  "check_family vs max_index others [] = Inr ()"
| "check_family vs max_index others (i # is) =
     (case vec_at vs i of
        None \<Rightarrow> Inl OutOfArray
      | Some vec \<Rightarrow>
          (case check_v_data vec max_index i (Some others) of
             Inl e \<Rightarrow> Inl e
           | Inr _ \<Rightarrow> check_family vs max_index others is))"

text \<open>The two \<open>for\<close> statements of \<open>check_m_data\<close> both pass \<open>n_rows\<close> as \<open>max_index\<close>, as the source does.\<close>

definition check_m_data :: "SM_value_t SparseMatrix \<Rightarrow> error + unit" where
  "check_m_data matr =
     (let n_rows = num_rows matr; n_cols = num_cols matr
      in case check_family (rows matr) n_rows (columns matr) [1..n_rows] of
           Inl e \<Rightarrow> Inl e
         | Inr _ \<Rightarrow> check_family (columns matr) n_rows (rows matr) [1..n_cols])"

subsection \<open>The group ring build (sparmat-U.c): values of Z[t]/(t^2 = 1)\<close>

text \<open>\<open>SM_value_t val[2]\<close>: the pair \<open>val[0] + val[1] t\<close>. The component type is declared
  in sparmat-U.h, which is not part of the sources at hand, and stays a parameter.\<close>

datatype 'a Uval = Uval 'a 'a

definition Uzero :: "('a::zero) Uval" where
  "Uzero = Uval 0 0"

fun are_Uvals_equal :: "'a Uval \<Rightarrow> 'a Uval \<Rightarrow> bool" where
  "are_Uvals_equal (Uval a0 a1) (Uval b0 b1) \<longleftrightarrow> a0 = b0 \<and> a1 = b1"

definition is_Uval_zero :: "('a::zero) Uval \<Rightarrow> bool" where
  "is_Uval_zero val = are_Uvals_equal val Uzero"

fun add_Uvals :: "('a::plus) Uval \<Rightarrow> 'a Uval \<Rightarrow> 'a Uval" where
  "add_Uvals (Uval a0 a1) (Uval b0 b1) = Uval (a0 + b0) (a1 + b1)"

fun mult_Uvals :: "('a::{plus,times}) Uval \<Rightarrow> 'a Uval \<Rightarrow> 'a Uval" where
  "mult_Uvals (Uval a0 a1) (Uval b0 b1) = Uval (a0 * b0 + a1 * b1) (a0 * b1 + a1 * b0)"

text \<open>The generic operations of the library read \<open>0\<close>, \<open>+\<close> and \<open>*\<close> at this type as
  \<open>Uzero\<close>, \<open>add_Uvals\<close> and \<open>mult_Uvals\<close>.\<close>

instantiation Uval :: (zero) zero
begin
definition zero_Uval :: "'a Uval" where "zero_Uval = Uzero"
instance ..
end

instantiation Uval :: (plus) plus
begin
definition plus_Uval :: "'a Uval \<Rightarrow> 'a Uval \<Rightarrow> 'a Uval" where "plus_Uval = add_Uvals"
instance ..
end

instantiation Uval :: (semiring_0) times
begin
definition times_Uval :: "'a Uval \<Rightarrow> 'a Uval \<Rightarrow> 'a Uval" where "times_Uval = mult_Uvals"
instance ..
end

section \<open>Well-formed sparse matrices\<close>

text \<open>
  The invariants of the data model: every chain is strictly ascending in index, its
  indices are in range and its values are not zero, the counter is the length of the
  chain unless the vector is deleted, a deleted vector has no entries, and the row view
  and the column view agree on every cell (bilateral consistency). The lookup used for
  the agreement is the library's own walk \<open>find_entry\<close>.
\<close>

definition idx_sorted :: "'v SparseEntry list \<Rightarrow> bool" where
  "idx_sorted es \<longleftrightarrow> sorted_wrt (<) (map fst es)"

definition vec_ok :: "SM_index_t \<Rightarrow> ('v::zero) SparseVector \<Rightarrow> bool" where
  "vec_ok max_index vec \<longleftrightarrow>
     idx_sorted (entries vec)
     \<and> (\<forall>e \<in> set (entries vec). 1 \<le> fst e \<and> fst e \<le> max_index \<and> snd e \<noteq> 0)
     \<and> (if num_entries vec = -1 then entries vec = []
        else num_entries vec = int (length (entries vec)))"

definition row_of :: "'v SparseMatrix \<Rightarrow> SM_index_t \<Rightarrow> 'v SparseVector" where
  "row_of matr r = rows matr ! nat (r - 1)"

definition col_of :: "'v SparseMatrix \<Rightarrow> SM_index_t \<Rightarrow> 'v SparseVector" where
  "col_of matr c = columns matr ! nat (c - 1)"

definition bilateral :: "'v SparseMatrix \<Rightarrow> bool" where
  "bilateral matr \<longleftrightarrow>
     (\<forall>r \<in> {1..num_rows matr}. \<forall>c \<in> {1..num_cols matr}.
        find_entry (entries (row_of matr r)) c = find_entry (entries (col_of matr c)) r)"

definition wf_matrix :: "('v::zero) SparseMatrix \<Rightarrow> bool" where
  "wf_matrix matr \<longleftrightarrow>
     1 \<le> num_rows matr \<and> 1 \<le> num_cols matr
     \<and> int (length (rows matr)) = num_rows matr
     \<and> int (length (columns matr)) = num_cols matr
     \<and> (\<forall>vec \<in> set (rows matr). vec_ok (num_cols matr) vec)
     \<and> (\<forall>vec \<in> set (columns matr). vec_ok (num_rows matr) vec)
     \<and> bilateral matr"

section \<open>The merge, taken apart\<close>

text \<open>
  Three functions that describe what the merge loop computes, used to state and prove
  its properties: the chain it leaves in the first vector, the sequence of values it
  writes (zero ones included), and the mirror updates it makes for that sequence.
\<close>

definition keep_nz :: "SM_index_t \<Rightarrow> ('v::zero) \<Rightarrow> 'v SparseEntry list \<Rightarrow> 'v SparseEntry list" where
  "keep_nz i nv es = (if nv = 0 then es else (i, nv) # es)"

fun merge_spec ::
  "('v::{zero,plus,times}) \<Rightarrow> 'v SparseEntry list \<Rightarrow> 'v SparseEntry list \<Rightarrow> 'v SparseEntry list" where
  "merge_spec s es1 [] = es1"
| "merge_spec s [] ((i2, v2) # es2) = keep_nz i2 (s * v2) (merge_spec s [] es2)"
| "merge_spec s ((i1, v1) # es1) ((i2, v2) # es2) =
     (if i1 < i2 then (i1, v1) # merge_spec s es1 ((i2, v2) # es2)
      else if i1 > i2 then keep_nz i2 (s * v2) (merge_spec s ((i1, v1) # es1) es2)
      else keep_nz i1 (v1 + s * v2) (merge_spec s es1 es2))"

fun merge_writes ::
  "('v::{zero,plus,times}) \<Rightarrow> 'v SparseEntry list \<Rightarrow> 'v SparseEntry list \<Rightarrow> 'v SparseEntry list" where
  "merge_writes s es1 [] = []"
| "merge_writes s [] ((i2, v2) # es2) = (i2, s * v2) # merge_writes s [] es2"
| "merge_writes s ((i1, v1) # es1) ((i2, v2) # es2) =
     (if i1 < i2 then merge_writes s es1 ((i2, v2) # es2)
      else if i1 > i2 then (i2, s * v2) # merge_writes s ((i1, v1) # es1) es2
      else (i1, v1 + s * v2) # merge_writes s es1 es2)"

fun mirror_all ::
  "('v::zero) sm_build \<Rightarrow> SM_index_t \<Rightarrow> 'v SparseEntry list \<Rightarrow> int \<Rightarrow> 'v SparseVector list
     \<Rightarrow> error + (int \<times> 'v SparseVector list)" where
  "mirror_all b cr_ind1 [] maxval others = Inr (maxval, others)"
| "mirror_all b cr_ind1 ((i, nv) # ws) maxval others =
     (case merge_step b cr_ind1 i nv maxval others of
        Inl e \<Rightarrow> Inl e
      | Inr (maxval', others') \<Rightarrow> mirror_all b cr_ind1 ws maxval' others')"

text \<open>A value as the content of a cell, and the value the merge writes at an index of the
  second vector.\<close>

definition nz :: "('v::zero) \<Rightarrow> 'v option" where
  "nz x = (if x = 0 then None else Some x)"

definition comb :: "('v::{plus,times}) \<Rightarrow> 'v option \<Rightarrow> 'v \<Rightarrow> 'v" where
  "comb s o1 v2 = (case o1 of None \<Rightarrow> s * v2 | Some v1 \<Rightarrow> v1 + s * v2)"

text \<open>The matrix read with rows and columns exchanged.\<close>

definition transpose_m :: "'v SparseMatrix \<Rightarrow> 'v SparseMatrix" where
  "transpose_m matr =
     \<lparr>num_rows = num_cols matr, num_cols = num_rows matr,
      rows = columns matr, columns = rows matr\<rparr>"

text \<open>The entrywise sum \<open>r1 + s * r2\<close> at column \<open>c\<close>, read with \<open>get_v_entry\<close> and taken in
  the arithmetic of the value type, as \<open>add_m_colrows\<close> takes it (for sparmat.c the wrapping
  arithmetic of \<open>int\<close>); and the columns in which row \<open>r2\<close> has an entry (the cells the
  merge writes).\<close>

definition row_sum ::
  "('v::{zero,plus,times}) SparseMatrix \<Rightarrow> SM_index_t \<Rightarrow> SM_index_t \<Rightarrow> 'v \<Rightarrow> SM_index_t \<Rightarrow> 'v" where
  "row_sum m r1 r2 s c = get_v_entry (row_of m r1) c + s * get_v_entry (row_of m r2) c"

definition touched :: "'v SparseMatrix \<Rightarrow> SM_index_t \<Rightarrow> SM_index_t set" where
  "touched m r2 = fst ` set (entries (row_of m r2))"

section \<open>The reducer (sparreduce-U.c)\<close>

text \<open>
  The reducer is built on sparmat-U.c. Its header sparmat-U.h, with the macros
  \<open>ABSFUNC\<close> and \<open>ENTRY_MAX\<close> for pairs, is not part of the sources at hand; the reducer
  takes them as the parameter \<open>b\<close>. In sparmat-U.c the removal functions return a status
  (there is no value sentinel) and \<open>add_m_entry\<close> admits a value by \<open>ABSFUNC\<close>.
\<close>

definition sparmat_U :: "('v \<Rightarrow> int) \<Rightarrow> int \<Rightarrow> 'v sm_build" where
  "sparmat_U absf emax =
     \<lparr>ABSFUNC = absf, ENTRY_MAX = emax, is_ERR_MVAL = (\<lambda>val. False),
      too_big = (\<lambda>val. absf val > emax)\<rparr>"

text \<open>Modelled from the spec: the macro \<open>ABSFUNC\<close> of sparmat-U.h is missing. The spec
  describes it twice. Its contract: \<open>magnitude(v)\<close> "equals 1 exactly for ring units
  usable as pivots", which "in the group-ring case identifies the four values (+-1,0) and
  (0,+-1)"; the comment of \<open>find_v_unit\<close> in sparmat-U.c says the same, "the first
  invertible entry (that is, the one whose absolute value equals 1)". \<open>unit_magnitude\<close>
  states this contract of a build.\<close>

definition unit_magnitude :: "('a::comm_ring_1) Uval sm_build \<Rightarrow> bool" where
  "unit_magnitude b \<longleftrightarrow>
     (\<forall>v. ABSFUNC b v = 1 \<longrightarrow> v \<in> {Uval 1 0, Uval (- 1) 0, Uval 0 1, Uval 0 (- 1)})"

text \<open>Modelled from the spec: its formula, \<open>magnitude((a,b)) = max(|a|,|b|)\<close>. The formula
  does not meet the contract: it is 1 on \<open>(1,1)\<close>, \<open>(1,-1)\<close>, \<open>(-1,1)\<close> and \<open>(-1,-1)\<close>
  too.\<close>

fun magnitude_spec :: "int Uval \<Rightarrow> int" where
  "magnitude_spec (Uval a b) = max \<bar>a\<bar> \<bar>b\<bar>"

text \<open>Modelled from the spec: a magnitude that meets the contract, 1 exactly on \<open>(1,0)\<close>,
  \<open>(-1,0)\<close>, \<open>(0,1)\<close> and \<open>(0,-1)\<close>. It shows that the contract can be met and stands
  for nothing in the sources.\<close>

fun magnitude_sum :: "int Uval \<Rightarrow> int" where
  "magnitude_sum (Uval a b) = \<bar>a\<bar> + \<bar>b\<bar>"

text \<open>
  What PARI hands over: the ranks, for every differential a value that is a
  \<open>t_VECSMALL\<close> of machine words or something else, and the number of entries to read
  from each. The static variables of the file form the state; a matrix that is not yet
  initialised has \<open>rows == NULL\<close>, here the empty list.
\<close>

datatype GEN_matrix = VECSMALL "int list" | OtherGEN

record 'a reducer =
  cplx_size :: int
  first_group :: int
  last_group :: int
  cplx_matrices :: "'a Uval SparseMatrix list"
  cplx_group_ranks :: "SM_index_t list"
  num_generators :: "SM_index_t list"
  pari_matrices :: "GEN_matrix list"
  num_entries_g :: "int list"

text \<open>The result vector: the numbers of generators and the two parallel vectors of
  dense matrices (columns of entries); \<open>None\<close> is the placeholder \<open>gen_0\<close>.\<close>

record 'a pari_result =
  numgen_vec :: "int list"
  matrices_vec0 :: "'a list list option list"
  matrices_vec1 :: "'a list list option list"

text \<open>C arrays indexed from 0.\<close>

definition arr_at :: "'a list \<Rightarrow> int \<Rightarrow> 'a option" where
  "arr_at xs i = (if 0 \<le> i \<and> i < int (length xs) then Some (xs ! nat i) else None)"

definition arr_upd :: "'a list \<Rightarrow> int \<Rightarrow> 'a \<Rightarrow> 'a list" where
  "arr_upd xs i x = xs[nat i := x]"

definition null_matrix :: "'v SparseMatrix" where
  "null_matrix = \<lparr>num_rows = 0, num_cols = 0, rows = [], columns = []\<rparr>"

datatype red_error =
    Lib error            \<comment> \<open>\<open>bailout\<close> after a failing library call\<close>
  | BadType              \<comment> \<open>\<open>bailout\<close> in \<open>assign_matrix\<close>: not a \<open>t_VECSMALL\<close>\<close>
  | NoMemory             \<comment> \<open>"malloc_arrays: not enough memory"\<close>
  | BadArray             \<comment> \<open>an index outside one of the arrays (undefined in C)\<close>
  | NotKilledCleanly     \<comment> \<open>"eliminate_gens: generator is not killed cleanly"\<close>
  | Corrupt              \<comment> \<open>"matr2pari: matrix is corrupt"\<close>

definition malloc_arrays :: "int \<Rightarrow> red_error + 'a reducer" where
  "malloc_arrays c_size =
     (if c_size < 1 then Inl NoMemory
      else Inr \<lparr>cplx_size = c_size, first_group = 0, last_group = 0,
                cplx_matrices = replicate (nat (c_size - 1)) null_matrix,
                cplx_group_ranks = replicate (nat c_size) 0,
                num_generators = replicate (nat c_size) 0,
                pari_matrices = [], num_entries_g = []\<rparr>)"

text \<open>
  \<open>assign_matrix\<close> on a 64-bit host (\<open>LONG_IS_64BIT\<close>): the entry is
  \<open>value * (row * 2^32 + column)\<close>, bit 31 of the absolute value selecting the
  coefficient of \<open>t\<close>. The word is an \<open>int\<close> here; row and column are assumed to fit
  their C type, as the source assumes.
\<close>

definition unpack_entry :: "int \<Rightarrow> SM_index_t \<times> SM_index_t \<times> ('a::comm_ring_1) Uval" where
  "unpack_entry x =
     (let is_val_neg = x < 0;
          tmp_val = \<bar>x\<bar>;
          is_odd_var = (tmp_val div 2 ^ 31) mod 2 \<noteq> 0;
          row = tmp_val div 2 ^ 32;
          column = tmp_val mod 2 ^ 31;
          v = (if is_val_neg then - 1 else 1)
      in (row, column, if is_odd_var then Uval 0 v else Uval v 0))"

fun assign_loop ::
  "('a::comm_ring_1) Uval sm_build \<Rightarrow> 'a Uval SparseMatrix \<Rightarrow> int list \<Rightarrow> nat
     \<Rightarrow> red_error + 'a Uval SparseMatrix" where
  "assign_loop b matr xs 0 = Inr matr"
| "assign_loop b matr [] (Suc n) = Inl BadArray"
| "assign_loop b matr (x # xs) (Suc n) =
     (case unpack_entry x of
        (row, column, val) \<Rightarrow>
          (case add_m_entry b matr row column val of
             Inl e \<Rightarrow> Inl (Lib e)
           | Inr matr' \<Rightarrow> assign_loop b matr' xs n))"

definition assign_matrix ::
  "('a::comm_ring_1) Uval sm_build \<Rightarrow> 'a Uval SparseMatrix \<Rightarrow> GEN_matrix \<Rightarrow> int
     \<Rightarrow> red_error + 'a Uval SparseMatrix" where
  "assign_matrix b matr entries_list list_len =
     (case entries_list of
        OtherGEN \<Rightarrow> Inl BadType
      | VECSMALL xs \<Rightarrow> assign_loop b matr xs (nat list_len))"

definition init_diff_matrix ::
  "('a::comm_ring_1) Uval sm_build \<Rightarrow> 'a reducer \<Rightarrow> int \<Rightarrow> red_error + 'a reducer" where
  "init_diff_matrix b st matrix =
     (if matrix < first_group st \<or> matrix \<ge> last_group st then Inr st
      else case (arr_at (cplx_group_ranks st) (matrix + 1), arr_at (cplx_group_ranks st) matrix,
                 arr_at (pari_matrices st) matrix, arr_at (num_entries_g st) matrix) of
             (Some n_rows, Some n_cols, Some entries_list, Some list_len) \<Rightarrow>
               (case init_s_matrix n_rows n_cols of
                  Inl e \<Rightarrow> Inl (Lib e)
                | Inr matr \<Rightarrow>
                    (case assign_matrix b matr entries_list list_len of
                       Inl e \<Rightarrow> Inl e
                     | Inr matr' \<Rightarrow>
                         Inr (st\<lparr>cplx_matrices := arr_upd (cplx_matrices st) matrix matr'\<rparr>)))
           | _ \<Rightarrow> Inl BadArray)"

text \<open>\<open>init_ranks\<close>: the loop, with \<open>i\<close> counting up; then the test for an empty complex.
  The boolean result is \<open>True\<close> for the return value 0 and \<open>False\<close> for -1.\<close>

fun init_ranks_loop :: "int list \<Rightarrow> int \<Rightarrow> int \<Rightarrow> int \<Rightarrow> int \<times> int" where
  "init_ranks_loop [] i fg lg = (fg, lg)"
| "init_ranks_loop (rk # rks) i fg lg =
     (if rk > 0 then init_ranks_loop rks (i + 1) (if fg < 0 then i else fg) i
      else init_ranks_loop rks (i + 1) fg lg)"

definition init_ranks :: "'a reducer \<Rightarrow> int list \<Rightarrow> red_error + (bool \<times> 'a reducer)" where
  "init_ranks st c_ranks =
     (if int (length c_ranks) < cplx_size st then Inl BadArray
      else let rks = take (nat (cplx_size st)) c_ranks;
               (fg, lg) = init_ranks_loop rks 0 (-1) (-1);
               st' = st\<lparr>num_generators := rks, cplx_group_ranks := rks,
                        first_group := fg, last_group := lg\<rparr>
           in Inr (\<not> fg < 0, st'))"

text \<open>\<open>kill_gen\<close>: the generator leaves the differential into its group (a row) and the
  differential out of it (a column).\<close>

definition kill_gen ::
  "('a::comm_ring_1) Uval sm_build \<Rightarrow> 'a reducer \<Rightarrow> int \<Rightarrow> SM_index_t \<Rightarrow> red_error + 'a reducer" where
  "kill_gen b st grp gen_num =
     (case (if grp > first_group st then
              (case arr_at (cplx_matrices st) (grp - 1) of
                 None \<Rightarrow> Inl BadArray
               | Some matr \<Rightarrow>
                   (case erase_m_row b matr gen_num True of
                      Inl e \<Rightarrow> Inl (Lib e)
                    | Inr matr' \<Rightarrow>
                        Inr (st\<lparr>cplx_matrices := arr_upd (cplx_matrices st) (grp - 1) matr'\<rparr>)))
            else Inr st) of
        Inl e \<Rightarrow> Inl e
      | Inr st1 \<Rightarrow>
          (case (if grp < last_group st1 then
                   (case arr_at (cplx_matrices st1) grp of
                      None \<Rightarrow> Inl BadArray
                    | Some matr \<Rightarrow>
                        (case erase_m_column b matr gen_num True of
                           Inl e \<Rightarrow> Inl (Lib e)
                         | Inr matr' \<Rightarrow>
                             Inr (st1\<lparr>cplx_matrices := arr_upd (cplx_matrices st1) grp matr'\<rparr>)))
                 else Inr st1) of
             Inl e \<Rightarrow> Inl e
           | Inr st2 \<Rightarrow>
               (case arr_at (num_generators st2) grp of
                  None \<Rightarrow> Inl BadArray
                | Some n \<Rightarrow>
                    Inr (st2\<lparr>num_generators := arr_upd (num_generators st2) grp (n - 1)\<rparr>))))"

text \<open>One of the three tests at the head of \<open>eliminate_gens\<close>:
  \<open>if (cond && cplx_matrices[k].rows == 0) init_diff_matrix(k)\<close>.\<close>

definition ensure_init ::
  "('a::comm_ring_1) Uval sm_build \<Rightarrow> 'a reducer \<Rightarrow> bool \<Rightarrow> int \<Rightarrow> red_error + 'a reducer" where
  "ensure_init b st cond k =
     (if \<not> cond then Inr st
      else case arr_at (cplx_matrices st) k of
             None \<Rightarrow> Inl BadArray
           | Some matr \<Rightarrow> if rows matr = [] then init_diff_matrix b st k else Inr st)"

fun neg_Uval :: "('a::uminus) Uval \<Rightarrow> 'a Uval" where
  "neg_Uval (Uval a0 a1) = Uval (- a0) (- a1)"

text \<open>
  The \<open>while (cur_entry != NULL)\<close> loop of \<open>eliminate_gens\<close>. It walks the chain of the row
  as linked at entry: \<open>next_entry\<close> is read before each \<open>add_m_cols\<close>, and
  \<open>add_m_cols(c, inc_gen, ...)\<close> writes, in this row, the node of column \<open>c\<close> only, so the
  nodes still to come and their values are those read at entry.
\<close>

fun sweep_row ::
  "('a::comm_ring_1) Uval sm_build \<Rightarrow> 'a Uval SparseMatrix \<Rightarrow> SM_index_t \<Rightarrow> 'a Uval
     \<Rightarrow> 'a Uval SparseEntry list \<Rightarrow> error + 'a Uval SparseMatrix" where
  "sweep_row b matr inc_gen gen_coeff [] = Inr matr"
| "sweep_row b matr inc_gen gen_coeff ((ind, val) # es) =
     (let add_coeff = mult_Uvals val gen_coeff
      in if ind \<noteq> inc_gen then
           (case add_m_cols b matr ind inc_gen add_coeff of
              Inl e \<Rightarrow> Inl e
            | Inr (_, matr') \<Rightarrow> sweep_row b matr' inc_gen gen_coeff es)
         else sweep_row b matr inc_gen gen_coeff es)"

text \<open>The number of entries of row \<open>gen\<close> of the differential into \<open>group\<close>, as
  \<open>inum_vectors->num_entries\<close> reads it.\<close>

definition inum_count :: "'a reducer \<Rightarrow> int \<Rightarrow> SM_index_t \<Rightarrow> red_error + SM_index_t" where
  "inum_count st grp gen =
     (case arr_at (cplx_matrices st) (grp - 1) of
        None \<Rightarrow> Inl BadArray
      | Some matr \<Rightarrow>
          (case vec_at (rows matr) gen of
             None \<Rightarrow> Inl BadArray
           | Some vec \<Rightarrow> Inr (num_entries vec)))"

text \<open>The end of an elimination: the two tests of the entry count around
  \<open>kill_gen(group - 1, inc_gen)\<close>, then \<open>kill_gen(group, gen)\<close>.\<close>

definition kill_pair ::
  "('a::comm_ring_1) Uval sm_build \<Rightarrow> 'a reducer \<Rightarrow> int \<Rightarrow> SM_index_t \<Rightarrow> SM_index_t
     \<Rightarrow> red_error + 'a reducer" where
  "kill_pair b st1 grp gen inc_gen =
     (case inum_count st1 grp gen of
        Inl e \<Rightarrow> Inl e
      | Inr n1 \<Rightarrow>
          if n1 \<noteq> 1 then Inl NotKilledCleanly
          else
            (case kill_gen b st1 (grp - 1) inc_gen of
               Inl e \<Rightarrow> Inl e
             | Inr st2 \<Rightarrow>
                 (case inum_count st2 grp gen of
                    Inl e \<Rightarrow> Inl e
                  | Inr n2 \<Rightarrow>
                      if n2 \<noteq> 0 then Inl NotKilledCleanly
                      else kill_gen b st2 grp gen)))"

text \<open>The body of the \<open>for\<close> loop of \<open>eliminate_gens\<close> for one generator; the boolean
  tells whether an elimination was done. \<open>find_v_unit\<close> cannot fail after the test for a
  deleted row.\<close>

definition eliminate_gen ::
  "('a::comm_ring_1) Uval sm_build \<Rightarrow> 'a reducer \<Rightarrow> int \<Rightarrow> bool \<Rightarrow> SM_index_t
     \<Rightarrow> red_error + (bool \<times> 'a reducer)" where
  "eliminate_gen b st grp do_short gen =
     (case arr_at (cplx_matrices st) (grp - 1) of
        None \<Rightarrow> Inl BadArray
      | Some matr \<Rightarrow>
          (case vec_at (rows matr) gen of
             None \<Rightarrow> Inl BadArray
           | Some inum_vector \<Rightarrow>
               if num_entries inum_vector = -1 then Inr (False, st)
               else if do_short \<and> num_entries inum_vector > 2 then Inr (False, st)
               else
                 (case find_v_unit b inum_vector of
                    Inl e \<Rightarrow> Inl (Lib e)
                  | Inr None \<Rightarrow> Inr (False, st)
                  | Inr (Some (inc_gen, gen_coeff)) \<Rightarrow>
                      (case sweep_row b matr inc_gen (neg_Uval gen_coeff) (entries inum_vector) of
                         Inl e \<Rightarrow> Inl (Lib e)
                       | Inr matr' \<Rightarrow>
                           (case kill_pair b
                                   (st\<lparr>cplx_matrices :=
                                         arr_upd (cplx_matrices st) (grp - 1) matr'\<rparr>)
                                   grp gen inc_gen of
                              Inl e \<Rightarrow> Inl e
                            | Inr st3 \<Rightarrow> Inr (True, st3))))))"

fun eliminate_loop ::
  "('a::comm_ring_1) Uval sm_build \<Rightarrow> 'a reducer \<Rightarrow> int \<Rightarrow> bool \<Rightarrow> SM_index_t list \<Rightarrow> bool
     \<Rightarrow> red_error + (bool \<times> 'a reducer)" where
  "eliminate_loop b st grp do_short [] isfound = Inr (isfound, st)"
| "eliminate_loop b st grp do_short (gen # gens) isfound =
     (case eliminate_gen b st grp do_short gen of
        Inl e \<Rightarrow> Inl e
      | Inr (found, st') \<Rightarrow> eliminate_loop b st' grp do_short gens (isfound \<or> found))"

definition eliminate_gens ::
  "('a::comm_ring_1) Uval sm_build \<Rightarrow> 'a reducer \<Rightarrow> int \<Rightarrow> bool
     \<Rightarrow> red_error + (bool \<times> 'a reducer)" where
  "eliminate_gens b st grp do_short =
     (case ensure_init b st (grp > first_group st + 1) (grp - 2) of
        Inl e \<Rightarrow> Inl e
      | Inr st1 \<Rightarrow>
          (case ensure_init b st1 (grp > first_group st1) (grp - 1) of
             Inl e \<Rightarrow> Inl e
           | Inr st2 \<Rightarrow>
               (case ensure_init b st2 (grp < last_group st2) grp of
                  Inl e \<Rightarrow> Inl e
                | Inr st3 \<Rightarrow>
                    (case arr_at (cplx_group_ranks st3) grp of
                       None \<Rightarrow> Inl BadArray
                     | Some rk \<Rightarrow> eliminate_loop b st3 grp do_short [1..rk] False))))"

text \<open>\<open>while (eliminate_gens(group, do_short)) cnt++;\<close> No bound on the number of rounds
  is written in the code; a run that would not end is the value \<open>None\<close>.\<close>

partial_function (option) elim_while ::
  "('a::comm_ring_1) Uval sm_build \<Rightarrow> int \<Rightarrow> bool \<Rightarrow> 'a reducer
     \<Rightarrow> (red_error + 'a reducer) option" where
  "elim_while b grp do_short st =
     (case eliminate_gens b st grp do_short of
        Inl e \<Rightarrow> Some (Inl e)
      | Inr (isfound, st') \<Rightarrow>
          if isfound then elim_while b grp do_short st' else Some (Inr st'))"

declare elim_while.simps [code]

text \<open>The \<open>for\<close> loop over the groups in \<open>reduce_s_complex_U\<close>.\<close>

fun reduce_groups ::
  "('a::comm_ring_1) Uval sm_build \<Rightarrow> int list \<Rightarrow> 'a reducer
     \<Rightarrow> (red_error + 'a reducer) option" where
  "reduce_groups b [] st = Some (Inr st)"
| "reduce_groups b (grp # grps) st =
     (case elim_while b grp True st of
        None \<Rightarrow> None
      | Some (Inl e) \<Rightarrow> Some (Inl e)
      | Some (Inr st1) \<Rightarrow>
          (case elim_while b grp False st1 of
             None \<Rightarrow> None
           | Some (Inl e) \<Rightarrow> Some (Inl e)
           | Some (Inr st2) \<Rightarrow> reduce_groups b grps st2))"

text \<open>\<open>while (vecs[k - 1].num_entries == -1 && k <= n) k++;\<close>\<close>

function skip_deleted :: "'v SparseVector list \<Rightarrow> SM_index_t \<Rightarrow> SM_index_t \<Rightarrow> SM_index_t" where
  "skip_deleted vecs k n =
     (if k \<le> n \<and> (case vec_at vecs k of Some vec \<Rightarrow> num_entries vec = -1 | None \<Rightarrow> False)
      then skip_deleted vecs (k + 1) n else k)"
  by pat_completeness auto
termination
  by (relation "measure (\<lambda>(vecs, k, n). nat (n + 1 - k))") auto

text \<open>The inner loop of \<open>matr2pari\<close>: one dense column, read by removing the entries.\<close>

fun matr2pari_col ::
  "('a::comm_ring_1) Uval sm_build \<Rightarrow> 'a Uval SparseMatrix \<Rightarrow> SM_index_t \<Rightarrow> SM_index_t \<Rightarrow> nat
     \<Rightarrow> red_error + ('a Uval list \<times> 'a Uval SparseMatrix)" where
  "matr2pari_col b matr col row 0 = Inr ([], matr)"
| "matr2pari_col b matr col row (Suc j) =
     (let row' = skip_deleted (rows matr) row (num_rows matr)
      in if row' > num_rows matr then Inl Corrupt
         else case remove_m_entry b matr row' col of
                Inl e \<Rightarrow> Inl (Lib e)
              | Inr (val, matr') \<Rightarrow>
                  (case matr2pari_col b matr' col (row' + 1) j of
                     Inl e \<Rightarrow> Inl e
                   | Inr (vals, matr'') \<Rightarrow> Inr (val # vals, matr'')))"

text \<open>The outer loop of \<open>matr2pari\<close>.\<close>

fun matr2pari_cols ::
  "('a::comm_ring_1) Uval sm_build \<Rightarrow> 'a Uval SparseMatrix \<Rightarrow> SM_index_t \<Rightarrow> nat \<Rightarrow> nat
     \<Rightarrow> red_error + ('a Uval list list \<times> 'a Uval SparseMatrix)" where
  "matr2pari_cols b matr col n_rows 0 = Inr ([], matr)"
| "matr2pari_cols b matr col n_rows (Suc i) =
     (let col' = skip_deleted (columns matr) col (num_cols matr)
      in if col' > num_cols matr then Inl Corrupt
         else case matr2pari_col b matr col' 1 n_rows of
                Inl e \<Rightarrow> Inl e
              | Inr (vals, matr') \<Rightarrow>
                  (case matr2pari_cols b matr' (col' + 1) n_rows i of
                     Inl e \<Rightarrow> Inl e
                   | Inr (cols, matr'') \<Rightarrow> Inr (vals # cols, matr'')))"

fun Uval0 :: "'a Uval \<Rightarrow> 'a" where
  "Uval0 (Uval a0 a1) = a0"

fun Uval1 :: "'a Uval \<Rightarrow> 'a" where
  "Uval1 (Uval a0 a1) = a1"

definition matr2pari ::
  "('a::comm_ring_1) Uval sm_build \<Rightarrow> 'a reducer \<Rightarrow> int
     \<Rightarrow> red_error + ('a list list \<times> 'a list list \<times> 'a reducer)" where
  "matr2pari b st grp =
     (case (arr_at (cplx_matrices st) grp, arr_at (num_generators st) (grp + 1),
            arr_at (num_generators st) grp) of
        (Some matr, Some n_rows, Some n_cols) \<Rightarrow>
          (case matr2pari_cols b matr 1 (nat n_rows) (nat n_cols) of
             Inl e \<Rightarrow> Inl e
           | Inr (cols, matr') \<Rightarrow>
               Inr (map (map Uval0) cols, map (map Uval1) cols,
                    st\<lparr>cplx_matrices := arr_upd (cplx_matrices st) grp matr'\<rparr>))
      | _ \<Rightarrow> Inl BadArray)"

text \<open>The \<open>for\<close> loop of \<open>feed2pari\<close> over the groups from \<open>first_group\<close> to \<open>last_group\<close>.\<close>

fun feed_loop ::
  "('a::comm_ring_1) Uval sm_build \<Rightarrow> 'a reducer \<Rightarrow> int list \<Rightarrow> 'a pari_result
     \<Rightarrow> red_error + 'a pari_result" where
  "feed_loop b st [] res = Inr res"
| "feed_loop b st (grp # grps) res =
     (case arr_at (num_generators st) grp of
        None \<Rightarrow> Inl BadArray
      | Some n \<Rightarrow>
          if n = 0 then feed_loop b st grps res
          else
            (let res1 = res\<lparr>numgen_vec := arr_upd (numgen_vec res) grp n\<rparr>
             in if grp = last_group st then feed_loop b st grps res1
                else case arr_at (num_generators st) (grp + 1) of
                       None \<Rightarrow> Inl BadArray
                     | Some n' \<Rightarrow>
                         if n' = 0 then feed_loop b st grps res1
                         else
                           (case matr2pari b st grp of
                              Inl e \<Rightarrow> Inl e
                            | Inr (m0, m1, st') \<Rightarrow>
                                feed_loop b st' grps
                                  (res1\<lparr>matrices_vec0 := arr_upd (matrices_vec0 res1) grp (Some m0),
                                        matrices_vec1 := arr_upd (matrices_vec1 res1) grp (Some m1)\<rparr>))))"

definition feed2pari ::
  "('a::comm_ring_1) Uval sm_build \<Rightarrow> 'a reducer \<Rightarrow> red_error + 'a pari_result" where
  "feed2pari b st =
     (let main_vec = \<lparr>numgen_vec = replicate (nat (cplx_size st)) 0,
                      matrices_vec0 = replicate (nat (cplx_size st - 1)) None,
                      matrices_vec1 = replicate (nat (cplx_size st - 1)) None\<rparr>
      in if first_group st < 0 then Inr main_vec
         else feed_loop b st [first_group st..last_group st] main_vec)"

definition reduce_s_complex_U ::
  "('a::comm_ring_1) Uval sm_build \<Rightarrow> int \<Rightarrow> int list \<Rightarrow> GEN_matrix list \<Rightarrow> int list
     \<Rightarrow> (red_error + 'a pari_result) option" where
  "reduce_s_complex_U b c_size c_ranks d_matrices matr_lengths =
     (case malloc_arrays c_size of
        Inl e \<Rightarrow> Some (Inl e)
      | Inr st0 \<Rightarrow>
          (case init_ranks (st0\<lparr>pari_matrices := d_matrices, num_entries_g := matr_lengths\<rparr>)
                  c_ranks of
             Inl e \<Rightarrow> Some (Inl e)
           | Inr (nonempty, st) \<Rightarrow>
               if \<not> nonempty then Some (feed2pari b st)
               else
                 (case reduce_groups b [first_group st + 1..last_group st] st of
                    None \<Rightarrow> None
                  | Some (Inl e) \<Rightarrow> Some (Inl e)
                  | Some (Inr st') \<Rightarrow> Some (feed2pari b st'))))"

section \<open>Example matrices\<close>

text \<open>A 2 x 2 matrix with the single entry 5 at (1, 2) whose second row is deleted.\<close>

definition tomb_example :: "SM_value_t SparseMatrix" where
  "tomb_example =
     \<lparr>num_rows = 2, num_cols = 2,
      rows = [\<lparr>num_entries = 1, entries = [(2, 5)]\<rparr>, \<lparr>num_entries = -1, entries = []\<rparr>],
      columns = [\<lparr>num_entries = 0, entries = []\<rparr>, \<lparr>num_entries = 1, entries = [(1, 5)]\<rparr>]\<rparr>"

text \<open>A 1 x 2 matrix with the single entry 1 at (1, 2).\<close>

definition wide_example :: "SM_value_t SparseMatrix" where
  "wide_example =
     \<lparr>num_rows = 1, num_cols = 2,
      rows = [\<lparr>num_entries = 1, entries = [(2, 1)]\<rparr>],
      columns = [\<lparr>num_entries = 0, entries = []\<rparr>, \<lparr>num_entries = 1, entries = [(1, 1)]\<rparr>]\<rparr>"

text \<open>A 2 x 1 matrix with the single entry 65537 at (2, 1).\<close>

definition ovf_example :: "SM_value_t SparseMatrix" where
  "ovf_example =
     \<lparr>num_rows = 2, num_cols = 1,
      rows = [\<lparr>num_entries = 0, entries = []\<rparr>, \<lparr>num_entries = 1, entries = [(1, 65537)]\<rparr>],
      columns = [\<lparr>num_entries = 1, entries = [(2, 65537)]\<rparr>]\<rparr>"

text \<open>A 2 x 1 matrix with the entries 1 at (1, 1) and 65537 at (2, 1).\<close>

definition sum_example :: "SM_value_t SparseMatrix" where
  "sum_example =
     \<lparr>num_rows = 2, num_cols = 1,
      rows = [\<lparr>num_entries = 1, entries = [(1, 1)]\<rparr>, \<lparr>num_entries = 1, entries = [(1, 65537)]\<rparr>],
      columns = [\<lparr>num_entries = 2, entries = [(1, 1), (2, 65537)]\<rparr>]\<rparr>"

text \<open>The empty 2 x 1 matrix, the same with the entry 65536 at (2, 1), and the latter
  with \<open>INT_MIN\<close> at (1, 1).\<close>

definition empty_example :: "SM_value_t SparseMatrix" where
  "empty_example =
     \<lparr>num_rows = 2, num_cols = 1,
      rows = [\<lparr>num_entries = 0, entries = []\<rparr>, \<lparr>num_entries = 0, entries = []\<rparr>],
      columns = [\<lparr>num_entries = 0, entries = []\<rparr>]\<rparr>"

definition pow_example :: "SM_value_t SparseMatrix" where
  "pow_example =
     \<lparr>num_rows = 2, num_cols = 1,
      rows = [\<lparr>num_entries = 0, entries = []\<rparr>, \<lparr>num_entries = 1, entries = [(1, 65536)]\<rparr>],
      columns = [\<lparr>num_entries = 1, entries = [(2, 65536)]\<rparr>]\<rparr>"

definition min_example :: "SM_value_t SparseMatrix" where
  "min_example =
     \<lparr>num_rows = 2, num_cols = 1,
      rows = [\<lparr>num_entries = 1, entries = [(1, - 2147483648)]\<rparr>,
              \<lparr>num_entries = 1, entries = [(1, 65536)]\<rparr>],
      columns = [\<lparr>num_entries = 2, entries = [(1, - 2147483648), (2, 65536)]\<rparr>]\<rparr>"

text \<open>The entrywise sum \<open>r1 + s * r2\<close> of sparmat.c at column \<open>c\<close> in mathematical integers.\<close>

definition int_sum ::
  "SM_value_t SparseMatrix \<Rightarrow> SM_index_t \<Rightarrow> SM_index_t \<Rightarrow> SM_value_t \<Rightarrow> SM_index_t \<Rightarrow> int" where
  "int_sum m r1 r2 s c =
     sint (get_v_entry (row_of m r1) c) + sint s * sint (get_v_entry (row_of m r2) c)"

text \<open>Every stored value is within the bound, measured as the library measures it: by
  \<open>ABSFUNC\<close>, which for sparmat.c is the \<open>abs\<close> of C on an \<open>int\<close>.\<close>

definition vals_bounded :: "'v sm_build \<Rightarrow> 'v SparseMatrix \<Rightarrow> bool" where
  "vals_bounded b matr \<longleftrightarrow>
     (\<forall>vec \<in> set (rows matr) \<union> set (columns matr).
        \<forall>e \<in> set (entries vec). ABSFUNC b (snd e) \<le> ENTRY_MAX b)"

text \<open>Modelled from the spec: the group ring build with the spec's formula
  \<open>max(|a|,|b|)\<close> for the missing macro \<open>ABSFUNC\<close>; for the missing \<open>ENTRY_MAX\<close> the
  value of sparmat.h is taken.\<close>

definition sparmat_U_spec :: "int Uval sm_build" where
  "sparmat_U_spec = sparmat_U magnitude_spec (INT_MAX div 2)"

text \<open>Modelled from the spec: the same build with the magnitude \<open>|a| + |b|\<close>, which
  meets the contract \<open>unit_magnitude\<close>.\<close>

definition sparmat_U_sum :: "int Uval sm_build" where
  "sparmat_U_sum = sparmat_U magnitude_sum (INT_MAX div 2)"

text \<open>The packed 2 x 3 differential with rows \<open>(1, t, 0)\<close> and \<open>(1, 1, 1)\<close>.\<close>

definition two_by_three :: GEN_matrix where
  "two_by_three =
     VECSMALL [4294967297, 6442450946, 8589934593, 8589934594, 8589934595]"





section \<open>Facts about the list walks\<close>

lemma idx_sorted_Cons:
  "idx_sorted ((i, v) # es) \<longleftrightarrow> (\<forall>e \<in> set es. i < fst e) \<and> idx_sorted es"
  by (auto simp: idx_sorted_def)

lemma idx_sorted_Nil [simp]: "idx_sorted []"
  by (simp add: idx_sorted_def)

lemma find_entry_above:
  "\<forall>e \<in> set es. i < fst e \<Longrightarrow> find_entry es i = None"
  by (cases es) auto

lemma find_entry_map_of:
  "idx_sorted es \<Longrightarrow> find_entry es i = map_of es i"
proof (induction es)
  case Nil
  then show ?case by simp
next
  case (Cons e es)
  obtain k v where e: "e = (k, v)" by (cases e)
  from Cons.prems e have above: "\<forall>x \<in> set es. k < fst x" and srt: "idx_sorted es"
    by (simp_all add: idx_sorted_Cons)
  show ?case
  proof (cases "k \<ge> i")
    case True
    have "map_of es i = None" if "k \<noteq> i"
    proof -
      from that True above have "\<forall>x \<in> set es. i \<noteq> fst x" by fastforce
      then show ?thesis by (force simp: map_of_eq_None_iff)
    qed
    with True e show ?thesis by auto
  next
    case False
    with e Cons.IH [OF srt] show ?thesis by auto
  qed
qed

lemma find_entry_Some_mem:
  "find_entry es i = Some v \<Longrightarrow> (i, v) \<in> set es"
  by (induction es) (auto split: if_splits)

lemma mem_find_entry:
  "idx_sorted es \<Longrightarrow> (i, v) \<in> set es \<Longrightarrow> find_entry es i = Some v"
proof -
  assume s: "idx_sorted es" and m: "(i, v) \<in> set es"
  from s have "distinct (map fst es)"
    by (simp add: idx_sorted_def strict_sorted_iff)
  with m have "map_of es i = Some v" by simp
  with s show ?thesis by (simp add: find_entry_map_of)
qed

lemma set_unlink_entry: "set (unlink_entry es i) \<subseteq> set es"
  by (induction es) (auto split: if_splits)

lemma idx_sorted_unlink: "idx_sorted es \<Longrightarrow> idx_sorted (unlink_entry es i)"
proof (induction es)
  case Nil
  then show ?case by simp
next
  case (Cons e es)
  obtain k v where e: "e = (k, v)" by (cases e)
  with Cons show ?case
    using set_unlink_entry [of es i] by (auto simp: idx_sorted_Cons)
qed

lemma find_unlink_entry:
  "idx_sorted es \<Longrightarrow> find_entry (unlink_entry es i) j = (if j = i then None else find_entry es j)"
proof (induction es)
  case Nil
  then show ?case by simp
next
  case (Cons e es)
  obtain k v where e: "e = (k, v)" by (cases e)
  from Cons.prems e have above: "\<forall>x \<in> set es. k < fst x" and srt: "idx_sorted es"
    by (simp_all add: idx_sorted_Cons)
  show ?case
  proof (cases "k = i")
    case True
    from above True have "find_entry es i = None" by (simp add: find_entry_above)
    moreover have "find_entry es j = None" if "j < i"
      using that above True by (intro find_entry_above) auto
    ultimately show ?thesis using e True by auto
  next
    case False
    show ?thesis
    proof (cases "k > i")
      case True
      then show ?thesis using e False by auto
    next
      case F: False
      with False have "k < i" by simp
      with e Cons.IH [OF srt] show ?thesis by auto
    qed
  qed
qed

lemma length_unlink_entry:
  "length (unlink_entry es i) = (case find_entry es i of None \<Rightarrow> length es | Some _ \<Rightarrow> length es - 1)"
proof (induction es)
  case Nil
  then show ?case by simp
next
  case (Cons e es)
  obtain k v where e: "e = (k, v)" by (cases e)
  have pos: "0 < length es" if "find_entry es i = Some w" for w
    using find_entry_Some_mem [OF that] by (rule length_pos_if_in_set)
  show ?case
  proof (cases "k \<ge> i")
    case True
    with e show ?thesis by (auto split: option.splits)
  next
    case False
    with e Cons.IH pos show ?thesis by (auto split: option.splits)
  qed
qed

lemma set_link_entry: "set (link_entry es i v) \<subseteq> insert (i, v) (set es)"
  by (induction es) (auto split: if_splits)

lemma fst_set_link_entry: "fst ` set (link_entry es i v) = insert i (fst ` set es)"
proof (induction es)
  case Nil
  then show ?case by simp
next
  case (Cons e es)
  obtain k w where e: "e = (k, w)" by (cases e)
  show ?case
  proof (cases "k \<ge> i")
    case True
    with e show ?thesis by (cases "k = i") auto
  next
    case False
    with e Cons.IH show ?thesis by (simp add: insert_commute)
  qed
qed

lemma idx_sorted_link: "idx_sorted es \<Longrightarrow> idx_sorted (link_entry es i v)"
proof (induction es)
  case Nil
  then show ?case by (simp add: idx_sorted_def)
next
  case (Cons e es)
  obtain k w where e: "e = (k, w)" by (cases e)
  from Cons.prems e have above: "\<forall>x \<in> set es. k < fst x" and srt: "idx_sorted es"
    by (simp_all add: idx_sorted_Cons)
  show ?case
  proof (cases "k \<ge> i")
    case True
    with e above srt show ?thesis by (auto simp: idx_sorted_Cons)
  next
    case False
    have "\<forall>x \<in> set (link_entry es i v). k < fst x"
    proof
      fix x assume "x \<in> set (link_entry es i v)"
      then have "fst x \<in> insert i (fst ` set es)"
        using fst_set_link_entry [of es i v] by blast
      with False above show "k < fst x" by auto
    qed
    with False e Cons.IH [OF srt] show ?thesis by (simp add: idx_sorted_Cons)
  qed
qed

lemma find_link_entry:
  "idx_sorted es \<Longrightarrow> find_entry (link_entry es i v) j = (if j = i then Some v else find_entry es j)"
proof (induction es)
  case Nil
  then show ?case by simp
next
  case (Cons e es)
  obtain k w where e: "e = (k, w)" by (cases e)
  from Cons.prems e have above: "\<forall>x \<in> set es. k < fst x" and srt: "idx_sorted es"
    by (simp_all add: idx_sorted_Cons)
  show ?case
  proof (cases "k \<ge> i")
    case True
    with e show ?thesis by auto
  next
    case False
    with e Cons.IH [OF srt] show ?thesis by auto
  qed
qed

lemma length_link_entry:
  "length (link_entry es i v) = (case find_entry es i of None \<Rightarrow> length es + 1 | Some _ \<Rightarrow> length es)"
proof (induction es)
  case Nil
  then show ?case by simp
next
  case (Cons e es)
  obtain k w where e: "e = (k, w)" by (cases e)
  show ?case
  proof (cases "k \<ge> i")
    case True
    with e show ?thesis by (auto split: option.splits)
  next
    case False
    with e Cons.IH show ?thesis by (auto split: option.splits)
  qed
qed

section \<open>Facts about the vector operations\<close>

lemma vec_ok_live_count:
  "vec_ok mx vec \<Longrightarrow> num_entries vec \<noteq> -1 \<Longrightarrow> num_entries vec = int (length (entries vec))"
  by (simp add: vec_ok_def)

lemma vec_ok_deleted_empty:
  "vec_ok mx vec \<Longrightarrow> num_entries vec = -1 \<Longrightarrow> entries vec = []"
  by (simp add: vec_ok_def)


lemma remove_v_entry_live:
  assumes ok: "vec_ok mx vec" and live: "num_entries vec \<noteq> -1"
  shows "\<exists>vec'. remove_v_entry vec i = Inr (get_v_entry vec i, vec')
           \<and> vec_ok mx vec' \<and> num_entries vec' \<noteq> -1
           \<and> (\<forall>j. find_entry (entries vec') j =
                  (if j = i then None else find_entry (entries vec) j))"
proof (cases "find_entry (entries vec) i")
  case None
  with ok live show ?thesis
    by (auto simp: remove_v_entry_def get_v_entry_def)
next
  case (Some val)
  let ?vec' = "vec\<lparr>entries := unlink_entry (entries vec) i, num_entries := num_entries vec - 1\<rparr>"
  from ok have srt: "idx_sorted (entries vec)" by (simp add: vec_ok_def)
  from Some have pos: "0 < length (entries vec)"
    using find_entry_Some_mem length_pos_if_in_set by fastforce
  have cnt: "num_entries vec = int (length (entries vec))"
    using ok live by (rule vec_ok_live_count)
  have len: "length (unlink_entry (entries vec) i) = length (entries vec) - 1"
    using Some by (simp add: length_unlink_entry)
  have "vec_ok mx ?vec'"
    unfolding vec_ok_def
  proof (intro conjI)
    show "idx_sorted (entries ?vec')" using srt by (simp add: idx_sorted_unlink)
    show "\<forall>e \<in> set (entries ?vec'). 1 \<le> fst e \<and> fst e \<le> mx \<and> snd e \<noteq> 0"
      using ok set_unlink_entry [of "entries vec" i] by (auto simp: vec_ok_def)
    show "if num_entries ?vec' = -1 then entries ?vec' = []
          else num_entries ?vec' = int (length (entries ?vec'))"
    proof -
      from pos obtain k where k: "length (entries vec) = Suc k"
        by (cases "length (entries vec)") auto
      with cnt len show ?thesis by simp
    qed
  qed
  moreover have "num_entries ?vec' \<noteq> -1"
  proof -
    from pos obtain k where k: "length (entries vec) = Suc k"
      by (cases "length (entries vec)") auto
    with cnt show ?thesis by simp
  qed
  moreover have "\<forall>j. find_entry (entries ?vec') j =
      (if j = i then None else find_entry (entries vec) j)"
    using srt by (simp add: find_unlink_entry)
  moreover have "remove_v_entry vec i = Inr (get_v_entry vec i, ?vec')"
    using live Some by (simp add: remove_v_entry_def get_v_entry_def)
  ultimately show ?thesis by blast
qed

lemma remove_v_entry_deleted:
  "num_entries vec = -1 \<Longrightarrow> remove_v_entry vec i = Inl Deleted"
  by (simp add: remove_v_entry_def)

lemma add_v_entry_deleted:
  "num_entries vec = -1 \<Longrightarrow> add_v_entry vec i v = Inl Deleted"
  by (simp add: add_v_entry_def)

lemma add_v_entry_live:
  assumes ok: "vec_ok mx vec" and live: "num_entries vec \<noteq> -1"
    and rng: "1 \<le> i" "i \<le> mx"
  shows "\<exists>vec'. add_v_entry vec i v = Inr vec'
           \<and> vec_ok mx vec' \<and> num_entries vec' \<noteq> -1
           \<and> (\<forall>j. find_entry (entries vec') j =
                  (if j = i then (if v = 0 then None else Some v)
                   else find_entry (entries vec) j))"
proof (cases "v = 0")
  case True
  from remove_v_entry_live [OF ok live, of i] obtain vec' where
    r: "remove_v_entry vec i = Inr (get_v_entry vec i, vec')"
    and p: "vec_ok mx vec'" "num_entries vec' \<noteq> -1"
      "\<forall>j. find_entry (entries vec') j = (if j = i then None else find_entry (entries vec) j)"
    by blast
  from r live True have "add_v_entry vec i v = Inr vec'"
    by (simp add: add_v_entry_def)
  with p True show ?thesis by auto
next
  case False
  from ok have srt: "idx_sorted (entries vec)" by (simp add: vec_ok_def)
  have cnt: "num_entries vec = int (length (entries vec))"
    using ok live by (rule vec_ok_live_count)
  define n' where "n' = (case find_entry (entries vec) i of
      Some _ \<Rightarrow> num_entries vec | None \<Rightarrow> num_entries vec + 1)"
  let ?vec' = "vec\<lparr>entries := link_entry (entries vec) i v, num_entries := n'\<rparr>"
  have eq: "add_v_entry vec i v = Inr ?vec'"
    using live False by (simp add: add_v_entry_def n'_def split: option.splits)
  have n': "n' = int (length (link_entry (entries vec) i v))"
    using cnt by (simp add: n'_def length_link_entry split: option.splits)
  have "vec_ok mx ?vec'"
    unfolding vec_ok_def
  proof (intro conjI)
    show "idx_sorted (entries ?vec')" using srt by (simp add: idx_sorted_link)
    show "\<forall>e \<in> set (entries ?vec'). 1 \<le> fst e \<and> fst e \<le> mx \<and> snd e \<noteq> 0"
      using ok set_link_entry [of "entries vec" i v] rng False
      by (auto simp: vec_ok_def)
    show "if num_entries ?vec' = -1 then entries ?vec' = []
          else num_entries ?vec' = int (length (entries ?vec'))"
      using n' by auto
  qed
  moreover have "num_entries ?vec' \<noteq> -1" using n' by auto
  moreover have "\<forall>j. find_entry (entries ?vec') j =
      (if j = i then (if v = 0 then None else Some v) else find_entry (entries vec) j)"
    using srt False by (simp add: find_link_entry)
  ultimately show ?thesis using eq by blast
qed

lemma vec_at_Some:
  "vec_at vs i = Some v \<longleftrightarrow> 1 \<le> i \<and> i \<le> int (length vs) \<and> v = vs ! nat (i - 1)"
  by (auto simp: vec_at_def)

lemma vec_at_in_range:
  "1 \<le> i \<Longrightarrow> i \<le> int (length vs) \<Longrightarrow> vec_at vs i = Some (vs ! nat (i - 1))"
  by (simp add: vec_at_def)

lemma length_vec_upd [simp]: "length (vec_upd vs i v) = length vs"
  by (simp add: vec_upd_def)

lemma nth_vec_upd:
  "1 \<le> i \<Longrightarrow> i \<le> int (length vs) \<Longrightarrow> 1 \<le> j \<Longrightarrow>
   vec_upd vs i v ! nat (j - 1) = (if j = i then v else vs ! nat (j - 1))"
  by (auto simp: vec_upd_def nth_list_update)

lemma set_vec_upd: "set (vec_upd vs i v) \<subseteq> insert v (set vs)"
  unfolding vec_upd_def by (rule set_update_subset_insert)

lemma nth_in_range_mem:
  "1 \<le> i \<Longrightarrow> i \<le> int (length vs) \<Longrightarrow> vs ! nat (i - 1) \<in> set vs"
  by (intro nth_mem) auto

section \<open>Facts about well-formed matrices\<close>

lemma wf_row_at:
  assumes "wf_matrix m" "1 \<le> r" "r \<le> num_rows m"
  shows "vec_at (rows m) r = Some (row_of m r)" and "vec_ok (num_cols m) (row_of m r)"
proof -
  from assms have len: "r \<le> int (length (rows m))" by (simp add: wf_matrix_def)
  with assms(2) show "vec_at (rows m) r = Some (row_of m r)"
    by (simp add: vec_at_def row_of_def)
  from assms(2) len have "row_of m r \<in> set (rows m)"
    unfolding row_of_def by (rule nth_in_range_mem)
  with assms(1) show "vec_ok (num_cols m) (row_of m r)" by (simp add: wf_matrix_def)
qed

lemma wf_col_at:
  assumes "wf_matrix m" "1 \<le> c" "c \<le> num_cols m"
  shows "vec_at (columns m) c = Some (col_of m c)" and "vec_ok (num_rows m) (col_of m c)"
proof -
  from assms have len: "c \<le> int (length (columns m))" by (simp add: wf_matrix_def)
  with assms(2) show "vec_at (columns m) c = Some (col_of m c)"
    by (simp add: vec_at_def col_of_def)
  from assms(2) len have "col_of m c \<in> set (columns m)"
    unfolding col_of_def by (rule nth_in_range_mem)
  with assms(1) show "vec_ok (num_rows m) (col_of m c)" by (simp add: wf_matrix_def)
qed

lemma wf_bilateral:
  assumes "wf_matrix m" "1 \<le> r" "r \<le> num_rows m" "1 \<le> c" "c \<le> num_cols m"
  shows "find_entry (entries (row_of m r)) c = find_entry (entries (col_of m c)) r"
  using assms by (simp add: wf_matrix_def bilateral_def)

section \<open>The merge loop computes the entrywise sum\<close>

lemma merge_loop_eq:
  "merge_loop b c s pre es1 es2 n mv os =
     (case mirror_all b c (merge_writes s es1 es2) mv os of
        Inl e \<Rightarrow> Inl e
      | Inr (mv', os') \<Rightarrow>
          Inr (mv', rev pre @ merge_spec s es1 es2,
               n + int (length (merge_spec s es1 es2)) - int (length es1), os'))"
proof (induction b c s pre es1 es2 n mv os rule: merge_loop.induct)
  case (1 b c s pre es1 n mv os)
  show ?case by simp
next
  case (2 b c s pre i2 v2 es2 n mv os)
  show ?case
  proof (cases "merge_step b c i2 (s * v2) mv os")
    case (Inl e)
    then show ?thesis by simp
  next
    case (Inr p)
    obtain mv' os' where p: "p = (mv', os')" by (cases p)
    show ?thesis
    proof (cases "s * v2 = 0")
      case True
      with Inr p "2.IH"(1) [OF refl Inr [unfolded p] refl True] show ?thesis
        by (simp add: keep_nz_def split: sum.splits)
    next
      case False
      with Inr p "2.IH"(2) [OF refl Inr [unfolded p] refl False] show ?thesis
        by (simp add: keep_nz_def split: sum.splits)
    qed
  qed
next
  case (3 b c s pre i1 v1 es1 i2 v2 es2 n mv os)
  show ?case
  proof (cases "i1 < i2")
    case True
    with "3.IH"(1) [OF True] show ?thesis by (simp split: sum.splits)
  next
    case nlt: False
    show ?thesis
    proof (cases "i1 > i2")
      case True
      show ?thesis
      proof (cases "merge_step b c i2 (s * v2) mv os")
        case (Inl e)
        with nlt True show ?thesis by simp
      next
        case (Inr p)
        obtain mv' os' where p: "p = (mv', os')" by (cases p)
        show ?thesis
        proof (cases "s * v2 = 0")
          case z: True
          with nlt True Inr p "3.IH"(2) [OF nlt True refl Inr [unfolded p] refl z]
          show ?thesis by (simp add: keep_nz_def split: sum.splits)
        next
          case z: False
          with nlt True Inr p "3.IH"(3) [OF nlt True refl Inr [unfolded p] refl z]
          show ?thesis by (simp add: keep_nz_def split: sum.splits)
        qed
      qed
    next
      case ngt: False
      with nlt have eq: "i1 = i2" by simp
      show ?thesis
      proof (cases "merge_step b c i1 (v1 + s * v2) mv os")
        case (Inl e)
        with nlt ngt show ?thesis by simp
      next
        case (Inr p)
        obtain mv' os' where p: "p = (mv', os')" by (cases p)
        show ?thesis
        proof (cases "v1 + s * v2 = 0")
          case z: True
          with nlt ngt Inr p "3.IH"(4) [OF nlt ngt refl Inr [unfolded p] refl z]
          show ?thesis by (simp add: keep_nz_def split: sum.splits)
        next
          case z: False
          with nlt ngt Inr p "3.IH"(5) [OF nlt ngt refl Inr [unfolded p] refl z]
          show ?thesis by (simp add: keep_nz_def split: sum.splits)
        qed
      qed
    qed
  qed
qed

section \<open>Facts about the merge\<close>

lemma is_Uval_zero_iff: "is_Uval_zero v \<longleftrightarrow> v = 0"
  by (cases v) (simp add: is_Uval_zero_def Uzero_def zero_Uval_def)

lemma are_Uvals_equal_iff: "are_Uvals_equal u v \<longleftrightarrow> u = v"
  by (cases u; cases v) simp

lemma find_Cons:
  "find_entry ((k, v) # es) j = (if j = k then Some v else if j < k then None else find_entry es j)"
  by auto

lemma find_tail_None:
  "idx_sorted ((k, v) # es) \<Longrightarrow> j \<le> k \<Longrightarrow> find_entry es j = None"
  by (rule find_entry_above) (auto simp: idx_sorted_Cons)

lemma fst_set_keep_nz: "fst ` set (keep_nz i nv es) \<subseteq> insert i (fst ` set es)"
  by (auto simp: keep_nz_def)

lemma fst_set_merge_spec:
  "fst ` set (merge_spec s es1 es2) \<subseteq> fst ` set es1 \<union> fst ` set es2"
proof (induction s es1 es2 rule: merge_spec.induct)
  case (1 s es1)
  show ?case by simp
next
  case (2 s i2 v2 es2)
  have "fst ` set (keep_nz i2 (s * v2) (merge_spec s [] es2))
      \<subseteq> insert i2 (fst ` set (merge_spec s [] es2))"
    by (rule fst_set_keep_nz)
  also have "\<dots> \<subseteq> insert i2 (fst ` set es2)" using "2.IH" by auto
  finally show ?case by simp
next
  case (3 s i1 v1 es1 i2 v2 es2)
  show ?case
  proof (cases "i1 < i2")
    case True
    with "3.IH"(1) show ?thesis by auto
  next
    case nlt: False
    show ?thesis
    proof (cases "i1 > i2")
      case True
      have "fst ` set (keep_nz i2 (s * v2) (merge_spec s ((i1, v1) # es1) es2))
          \<subseteq> insert i2 (fst ` set (merge_spec s ((i1, v1) # es1) es2))"
        by (rule fst_set_keep_nz)
      also have "\<dots> \<subseteq> insert i2 (fst ` set ((i1, v1) # es1) \<union> fst ` set es2)"
        using "3.IH"(2) [OF nlt True] by blast
      finally show ?thesis using nlt True by auto
    next
      case False
      have "fst ` set (keep_nz i1 (v1 + s * v2) (merge_spec s es1 es2))
          \<subseteq> insert i1 (fst ` set (merge_spec s es1 es2))"
        by (rule fst_set_keep_nz)
      also have "\<dots> \<subseteq> insert i1 (fst ` set es1 \<union> fst ` set es2)"
        using "3.IH"(3) [OF nlt False] by blast
      finally show ?thesis using nlt False by auto
    qed
  qed
qed

lemma idx_sorted_keep_nz:
  "idx_sorted es \<Longrightarrow> \<forall>e \<in> set es. i < fst e \<Longrightarrow> idx_sorted (keep_nz i nv es)"
  by (simp add: keep_nz_def idx_sorted_Cons)

lemma idx_sorted_merge_spec:
  "idx_sorted es1 \<Longrightarrow> idx_sorted es2 \<Longrightarrow> idx_sorted (merge_spec s es1 es2)"
proof (induction s es1 es2 rule: merge_spec.induct)
  case (1 s es1)
  then show ?case by simp
next
  case (2 s i2 v2 es2)
  from "2.prems" have ab: "\<forall>e \<in> set es2. i2 < fst e" and s2: "idx_sorted es2"
    by (simp_all add: idx_sorted_Cons)
  have "\<forall>e \<in> set (merge_spec s [] es2). i2 < fst e"
    using fst_set_merge_spec [of s "[]" es2] ab by fastforce
  with "2.IH" s2 show ?case by (simp add: idx_sorted_keep_nz)
next
  case (3 s i1 v1 es1 i2 v2 es2)
  from "3.prems" have ab1: "\<forall>e \<in> set es1. i1 < fst e" and s1: "idx_sorted es1"
    and ab2: "\<forall>e \<in> set es2. i2 < fst e" and s2: "idx_sorted es2"
    by (simp_all add: idx_sorted_Cons)
  show ?case
  proof (cases "i1 < i2")
    case True
    have "\<forall>e \<in> set (merge_spec s es1 ((i2, v2) # es2)). i1 < fst e"
      using fst_set_merge_spec [of s es1 "(i2, v2) # es2"] ab1 ab2 True by fastforce
    with True "3.IH"(1) [OF True s1 "3.prems"(2)] show ?thesis
      by (simp add: idx_sorted_Cons)
  next
    case nlt: False
    show ?thesis
    proof (cases "i1 > i2")
      case True
      have "\<forall>e \<in> set (merge_spec s ((i1, v1) # es1) es2). i2 < fst e"
        using fst_set_merge_spec [of s "(i1, v1) # es1" es2] ab1 ab2 True by fastforce
      with nlt True "3.IH"(2) [OF nlt True "3.prems"(1) s2] show ?thesis
        by (simp add: idx_sorted_keep_nz)
    next
      case False
      with nlt have eq: "i1 = i2" by simp
      have "\<forall>e \<in> set (merge_spec s es1 es2). i1 < fst e"
        using fst_set_merge_spec [of s es1 es2] ab1 ab2 eq by fastforce
      with nlt False "3.IH"(3) [OF nlt False s1 s2] show ?thesis
        by (simp add: idx_sorted_keep_nz)
    qed
  qed
qed

lemma snd_set_merge_spec:
  "\<forall>e \<in> set es1. snd e \<noteq> 0 \<Longrightarrow> \<forall>e \<in> set (merge_spec s es1 es2). snd e \<noteq> 0"
  by (induction s es1 es2 rule: merge_spec.induct) (auto simp: keep_nz_def)

lemma map_fst_merge_writes: "map fst (merge_writes s es1 es2) = map fst es2"
  by (induction s es1 es2 rule: merge_writes.induct) auto

lemma idx_sorted_merge_writes: "idx_sorted es2 \<Longrightarrow> idx_sorted (merge_writes s es1 es2)"
  by (simp add: idx_sorted_def map_fst_merge_writes)

lemma find_keep_nz:
  assumes ab: "\<forall>e \<in> set es. i < fst e"
  shows "find_entry (keep_nz i nv es) j =
           (if j = i then nz nv else if j < i then None else find_entry es j)"
proof (cases "nv = 0")
  case True
  have "find_entry es j = None" if "j \<le> i"
    using ab that by (intro find_entry_above) auto
  with True show ?thesis by (auto simp: keep_nz_def nz_def)
next
  case False
  then show ?thesis by (auto simp: keep_nz_def nz_def)
qed

lemma find_merge_spec:
  "idx_sorted es1 \<Longrightarrow> idx_sorted es2 \<Longrightarrow>
   find_entry (merge_spec s es1 es2) j =
     (case find_entry es2 j of
        None \<Rightarrow> find_entry es1 j
      | Some v2 \<Rightarrow> nz (comb s (find_entry es1 j) v2))"
proof (induction s es1 es2 rule: merge_spec.induct)
  case (1 s es1)
  show ?case by simp
next
  case (2 s i2 v2 es2)
  from "2.prems" have ab: "\<forall>e \<in> set es2. i2 < fst e" and s2: "idx_sorted es2"
    by (simp_all add: idx_sorted_Cons)
  have ab': "\<forall>e \<in> set (merge_spec s [] es2). i2 < fst e"
    using fst_set_merge_spec [of s "[]" es2] ab by fastforce
  have t: "find_entry es2 j = None" if "j \<le> i2"
    using "2.prems"(2) that by (rule find_tail_None)
  show ?case
    using "2.IH" [OF "2.prems"(1) s2] t
    by (simp add: find_keep_nz [OF ab'] find_Cons comb_def del: find_entry.simps(2))
next
  case (3 s i1 v1 es1 i2 v2 es2)
  from "3.prems" have ab1: "\<forall>e \<in> set es1. i1 < fst e" and s1: "idx_sorted es1"
    and ab2: "\<forall>e \<in> set es2. i2 < fst e" and s2: "idx_sorted es2"
    by (simp_all add: idx_sorted_Cons)
  have t1: "find_entry es1 j = None" if "j \<le> i1"
    using "3.prems"(1) that by (rule find_tail_None)
  have t2: "find_entry es2 j = None" if "j \<le> i2"
    using "3.prems"(2) that by (rule find_tail_None)
  show ?case
  proof (cases "i1 < i2")
    case True
    from "3.IH"(1) [OF True s1 "3.prems"(2)] True t2 show ?thesis
      by (auto simp: find_Cons comb_def simp del: find_entry.simps(2) split: option.splits)
  next
    case nlt: False
    show ?thesis
    proof (cases "i1 > i2")
      case True
      have ab': "\<forall>e \<in> set (merge_spec s ((i1, v1) # es1) es2). i2 < fst e"
        using fst_set_merge_spec [of s "(i1, v1) # es1" es2] ab1 ab2 True by fastforce
      from "3.IH"(2) [OF nlt True "3.prems"(1) s2] nlt True t1 t2 show ?thesis
        by (auto simp: find_keep_nz [OF ab'] find_Cons comb_def
            simp del: find_entry.simps(2) split: option.splits)
    next
      case False
      with nlt have eq: "i1 = i2" by simp
      have ab': "\<forall>e \<in> set (merge_spec s es1 es2). i2 < fst e"
        using fst_set_merge_spec [of s es1 es2] ab1 ab2 eq by fastforce
      from "3.IH"(3) [OF nlt False s1 s2] nlt False eq t1 t2 show ?thesis
        by (auto simp: find_keep_nz [OF ab'] find_Cons comb_def
            simp del: find_entry.simps(2) split: option.splits)
    qed
  qed
qed

lemma find_merge_writes:
  "idx_sorted es1 \<Longrightarrow> idx_sorted es2 \<Longrightarrow>
   find_entry (merge_writes s es1 es2) j =
     (case find_entry es2 j of
        None \<Rightarrow> None
      | Some v2 \<Rightarrow> Some (comb s (find_entry es1 j) v2))"
proof (induction s es1 es2 rule: merge_writes.induct)
  case (1 s es1)
  show ?case by simp
next
  case (2 s i2 v2 es2)
  from "2.prems" have s2: "idx_sorted es2" by (simp add: idx_sorted_Cons)
  show ?case
    using "2.IH" [OF "2.prems"(1) s2]
    by (simp add: find_Cons comb_def del: find_entry.simps(2))
next
  case (3 s i1 v1 es1 i2 v2 es2)
  from "3.prems" have s1: "idx_sorted es1" and s2: "idx_sorted es2"
    by (simp_all add: idx_sorted_Cons)
  have t1: "find_entry es1 j = None" if "j \<le> i1"
    using "3.prems"(1) that by (rule find_tail_None)
  have t2: "find_entry es2 j = None" if "j \<le> i2"
    using "3.prems"(2) that by (rule find_tail_None)
  show ?case
  proof (cases "i1 < i2")
    case True
    from "3.IH"(1) [OF True s1 "3.prems"(2)] True t2 show ?thesis
      by (auto simp: find_Cons comb_def simp del: find_entry.simps(2) split: option.splits)
  next
    case nlt: False
    show ?thesis
    proof (cases "i1 > i2")
      case True
      from "3.IH"(2) [OF nlt True "3.prems"(1) s2] nlt True t1 t2 show ?thesis
        by (auto simp: find_Cons comb_def simp del: find_entry.simps(2) split: option.splits)
    next
      case False
      with nlt have eq: "i1 = i2" by simp
      from "3.IH"(3) [OF nlt False s1 s2] nlt False eq t1 t2 show ?thesis
        by (auto simp: find_Cons comb_def simp del: find_entry.simps(2) split: option.splits)
    qed
  qed
qed

section \<open>The mirror updates of the merge\<close>

lemma merge_step_Inr:
  assumes "merge_step b c i nv mv os = Inr (mv1, os1)"
  shows "ABSFUNC b nv \<le> ENTRY_MAX b" and "1 \<le> i" and "i \<le> int (length os)"
    and "num_entries (os ! nat (i - 1)) \<noteq> -1"
    and "mv1 = max mv (ABSFUNC b nv)"
    and "\<exists>ov'. add_v_entry (os ! nat (i - 1)) c nv = Inr ov' \<and> os1 = vec_upd os i ov'"
proof -
  from assms show "ABSFUNC b nv \<le> ENTRY_MAX b"
    by (auto simp: merge_step_def Let_def split: if_splits)
  from assms obtain ov where ov: "vec_at os i = Some ov"
    by (auto simp: merge_step_def Let_def split: if_splits option.splits)
  then show "1 \<le> i" and "i \<le> int (length os)" by (auto simp: vec_at_Some)
  from ov have ov_eq: "ov = os ! nat (i - 1)" by (simp add: vec_at_Some)
  from assms ov obtain ov' where a: "add_v_entry ov c nv = Inr ov'" and o: "os1 = vec_upd os i ov'"
    by (auto simp: merge_step_def Let_def split: if_splits sum.splits)
  from a show "num_entries (os ! nat (i - 1)) \<noteq> -1"
    unfolding ov_eq by (auto simp: add_v_entry_def split: if_splits)
  from assms show "mv1 = max mv (ABSFUNC b nv)"
    by (auto simp: merge_step_def Let_def max_def split: if_splits option.splits sum.splits)
  from a o show "\<exists>ov'. add_v_entry (os ! nat (i - 1)) c nv = Inr ov' \<and> os1 = vec_upd os i ov'"
    unfolding ov_eq by blast
qed

lemma merge_step_too_big:
  "ABSFUNC b nv > ENTRY_MAX b \<Longrightarrow> merge_step b c i nv mv os = Inl TooBig"
  by (simp add: merge_step_def Let_def)

lemma merge_step_ok:
  assumes fam: "\<forall>vec \<in> set os. vec_ok mx vec"
    and c: "1 \<le> c" "c \<le> mx"
    and i: "1 \<le> i" "i \<le> int (length os)"
    and live: "num_entries (os ! nat (i - 1)) \<noteq> -1"
    and bd: "ABSFUNC b nv \<le> ENTRY_MAX b"
  shows "\<exists>ov'. merge_step b c i nv mv os = Inr (max mv (ABSFUNC b nv), vec_upd os i ov')
           \<and> add_v_entry (os ! nat (i - 1)) c nv = Inr ov'"
proof -
  from i have mem: "os ! nat (i - 1) \<in> set os" by (rule nth_in_range_mem)
  with fam have ok: "vec_ok mx (os ! nat (i - 1))" by blast
  from add_v_entry_live [OF ok live c, of nv] obtain ov' where
    a: "add_v_entry (os ! nat (i - 1)) c nv = Inr ov'" by blast
  from i have "vec_at os i = Some (os ! nat (i - 1))" by (rule vec_at_in_range)
  with a bd show ?thesis by (auto simp: merge_step_def Let_def max_def)
qed

text \<open>What one mirror update does to the family of orthogonal vectors.\<close>

lemma mirror_update:
  assumes fam: "\<forall>vec \<in> set os. vec_ok mx vec"
    and c: "1 \<le> c" "c \<le> mx"
    and i: "1 \<le> i" "i \<le> int (length os)"
    and a: "add_v_entry (os ! nat (i - 1)) c nv = Inr ov'"
  shows "\<forall>vec \<in> set (vec_upd os i ov'). vec_ok mx vec"
    and "\<forall>j. 1 \<le> j \<longrightarrow> j \<le> int (length os) \<longrightarrow>
           (num_entries (vec_upd os i ov' ! nat (j - 1)) = -1) = (num_entries (os ! nat (j - 1)) = -1)"
    and "\<forall>j k. 1 \<le> j \<longrightarrow> j \<le> int (length os) \<longrightarrow>
           find_entry (entries (vec_upd os i ov' ! nat (j - 1))) k =
             (if j = i \<and> k = c then nz nv else find_entry (entries (os ! nat (j - 1))) k)"
proof -
  from i have mem: "os ! nat (i - 1) \<in> set os" by (rule nth_in_range_mem)
  with fam have ok: "vec_ok mx (os ! nat (i - 1))" by blast
  from a have live: "num_entries (os ! nat (i - 1)) \<noteq> -1"
    by (auto simp: add_v_entry_def split: if_splits)
  from add_v_entry_live [OF ok live c, of nv] a have
    ok': "vec_ok mx ov'" and live': "num_entries ov' \<noteq> -1"
    and f: "\<forall>j. find_entry (entries ov') j =
        (if j = c then (if nv = 0 then None else Some nv)
         else find_entry (entries (os ! nat (i - 1))) j)"
    by auto
  from ok' fam set_vec_upd [of os i ov'] show "\<forall>vec \<in> set (vec_upd os i ov'). vec_ok mx vec"
    by blast
  show "\<forall>j. 1 \<le> j \<longrightarrow> j \<le> int (length os) \<longrightarrow>
           (num_entries (vec_upd os i ov' ! nat (j - 1)) = -1) = (num_entries (os ! nat (j - 1)) = -1)"
    using live live' i by (auto simp: nth_vec_upd)
  show "\<forall>j k. 1 \<le> j \<longrightarrow> j \<le> int (length os) \<longrightarrow>
           find_entry (entries (vec_upd os i ov' ! nat (j - 1))) k =
             (if j = i \<and> k = c then nz nv else find_entry (entries (os ! nat (j - 1))) k)"
    using f i by (auto simp: nth_vec_upd nz_def)
qed

lemma mirror_all_result:
  assumes fam: "\<forall>vec \<in> set os. vec_ok mx vec"
    and c: "1 \<le> c" "c \<le> mx"
    and srt: "idx_sorted ws"
    and res: "mirror_all b c ws mv os = Inr (mv', os')"
  shows "length os' = length os \<and> (\<forall>vec \<in> set os'. vec_ok mx vec)
       \<and> (\<forall>j. 1 \<le> j \<longrightarrow> j \<le> int (length os) \<longrightarrow>
             (num_entries (os' ! nat (j - 1)) = -1) = (num_entries (os ! nat (j - 1)) = -1))
       \<and> (\<forall>j k. 1 \<le> j \<longrightarrow> j \<le> int (length os) \<longrightarrow>
             find_entry (entries (os' ! nat (j - 1))) k =
               (case find_entry ws j of
                  Some nv \<Rightarrow> if k = c then nz nv else find_entry (entries (os ! nat (j - 1))) k
                | None \<Rightarrow> find_entry (entries (os ! nat (j - 1))) k))
       \<and> (\<forall>w \<in> set ws. ABSFUNC b (snd w) \<le> ENTRY_MAX b)
       \<and> mv' = fold (\<lambda>w m. max m (ABSFUNC b (snd w))) ws mv"
  using fam srt res
proof (induction ws arbitrary: os mv)
  case Nil
  then show ?case by simp
next
  case (Cons w ws)
  obtain i nv where w: "w = (i, nv)" by (cases w)
  from Cons.prems(3) w obtain mv1 os1 where
    st: "merge_step b c i nv mv os = Inr (mv1, os1)"
    and rest: "mirror_all b c ws mv1 os1 = Inr (mv', os')"
    by (auto split: sum.splits)
  note s = merge_step_Inr [OF st]
  from s(6) obtain ov' where a: "add_v_entry (os ! nat (i - 1)) c nv = Inr ov'"
    and os1: "os1 = vec_upd os i ov'" by blast
  note u = mirror_update [OF Cons.prems(1) c s(2) s(3) a, folded os1]
  from Cons.prems(2) w have srt': "idx_sorted ws" and ab: "\<forall>e \<in> set ws. i < fst e"
    by (simp_all add: idx_sorted_Cons)
  have len1: "length os1 = length os" by (simp add: os1)
  note ih = Cons.IH [OF u(1) srt' rest, unfolded len1]
  have t: "find_entry ws j = None" if "j \<le> i" for j
    using ab that by (intro find_entry_above) auto
  have look: "find_entry (entries (os' ! nat (j - 1))) k =
               (case find_entry (w # ws) j of
                  Some nv \<Rightarrow> if k = c then nz nv else find_entry (entries (os ! nat (j - 1))) k
                | None \<Rightarrow> find_entry (entries (os ! nat (j - 1))) k)"
    if j: "1 \<le> j" "j \<le> int (length os)" for j k
  proof -
    from ih j have e1: "find_entry (entries (os' ! nat (j - 1))) k =
               (case find_entry ws j of
                  Some nv \<Rightarrow> if k = c then nz nv else find_entry (entries (os1 ! nat (j - 1))) k
                | None \<Rightarrow> find_entry (entries (os1 ! nat (j - 1))) k)"
      by blast
    from u(3) j have e2: "find_entry (entries (os1 ! nat (j - 1))) k =
             (if j = i \<and> k = c then nz nv else find_entry (entries (os ! nat (j - 1))) k)"
      by blast
    show ?thesis
    proof (cases "j \<le> i")
      case True
      with e1 e2 t [OF True] w show ?thesis
        by (auto simp: find_Cons simp del: find_entry.simps(2))
    next
      case False
      with e1 e2 w show ?thesis
        by (auto simp: find_Cons simp del: find_entry.simps(2) split: option.splits)
    qed
  qed
  have "length os' = length os" using ih by simp
  moreover have "\<forall>vec \<in> set os'. vec_ok mx vec" using ih by blast
  moreover have "\<forall>j. 1 \<le> j \<longrightarrow> j \<le> int (length os) \<longrightarrow>
             (num_entries (os' ! nat (j - 1)) = -1) = (num_entries (os ! nat (j - 1)) = -1)"
    using ih u(2) by simp
  moreover have "\<forall>w' \<in> set (w # ws). ABSFUNC b (snd w') \<le> ENTRY_MAX b"
    using ih s(1) w by simp
  moreover have "mv' = fold (\<lambda>w m. max m (ABSFUNC b (snd w))) (w # ws) mv"
    using ih s(5) w by simp
  ultimately show ?case using look by blast
qed

lemma mirror_all_succeeds:
  assumes fam: "\<forall>vec \<in> set os. vec_ok mx vec"
    and c: "1 \<le> c" "c \<le> mx"
    and tg: "\<forall>w \<in> set ws. 1 \<le> fst w \<and> fst w \<le> int (length os)
                \<and> num_entries (os ! nat (fst w - 1)) \<noteq> -1"
    and bd: "\<forall>w \<in> set ws. ABSFUNC b (snd w) \<le> ENTRY_MAX b"
  shows "\<exists>mv' os'. mirror_all b c ws mv os = Inr (mv', os')"
  using fam tg bd
proof (induction ws arbitrary: os mv)
  case Nil
  then show ?case by simp
next
  case (Cons w ws)
  obtain i nv where w: "w = (i, nv)" by (cases w)
  from Cons.prems(2) w have i: "1 \<le> i" "i \<le> int (length os)"
    and live: "num_entries (os ! nat (i - 1)) \<noteq> -1" by auto
  from Cons.prems(3) w have b1: "ABSFUNC b nv \<le> ENTRY_MAX b" by simp
  from merge_step_ok [OF Cons.prems(1) c i live b1, of mv] obtain ov' where
    st: "merge_step b c i nv mv os = Inr (max mv (ABSFUNC b nv), vec_upd os i ov')"
    and a: "add_v_entry (os ! nat (i - 1)) c nv = Inr ov'" by blast
  note u = mirror_update [OF Cons.prems(1) c i a]
  have tg': "\<forall>w \<in> set ws. 1 \<le> fst w \<and> fst w \<le> int (length (vec_upd os i ov'))
                \<and> num_entries (vec_upd os i ov' ! nat (fst w - 1)) \<noteq> -1"
    using Cons.prems(2) u(2) by simp
  from Cons.prems(3) have bd': "\<forall>w \<in> set ws. ABSFUNC b (snd w) \<le> ENTRY_MAX b" by simp
  from Cons.IH [OF u(1) tg' bd', of "max mv (ABSFUNC b nv)"] st w show ?case by simp
qed

lemma mirror_all_too_big:
  assumes fam: "\<forall>vec \<in> set os. vec_ok mx vec"
    and c: "1 \<le> c" "c \<le> mx"
    and tg: "\<forall>w \<in> set ws. 1 \<le> fst w \<and> fst w \<le> int (length os)
                \<and> num_entries (os ! nat (fst w - 1)) \<noteq> -1"
    and bd: "\<exists>w \<in> set ws. ABSFUNC b (snd w) > ENTRY_MAX b"
  shows "mirror_all b c ws mv os = Inl TooBig"
  using fam tg bd
proof (induction ws arbitrary: os mv)
  case Nil
  then show ?case by simp
next
  case (Cons w ws)
  obtain i nv where w: "w = (i, nv)" by (cases w)
  show ?case
  proof (cases "ABSFUNC b nv > ENTRY_MAX b")
    case True
    with w show ?thesis by (simp add: merge_step_too_big)
  next
    case False
    then have b1: "ABSFUNC b nv \<le> ENTRY_MAX b" by simp
    from Cons.prems(2) w have i: "1 \<le> i" "i \<le> int (length os)"
      and live: "num_entries (os ! nat (i - 1)) \<noteq> -1" by auto
    from merge_step_ok [OF Cons.prems(1) c i live b1, of mv] obtain ov' where
      st: "merge_step b c i nv mv os = Inr (max mv (ABSFUNC b nv), vec_upd os i ov')"
      and a: "add_v_entry (os ! nat (i - 1)) c nv = Inr ov'" by blast
    note u = mirror_update [OF Cons.prems(1) c i a]
    have tg': "\<forall>w \<in> set ws. 1 \<le> fst w \<and> fst w \<le> int (length (vec_upd os i ov'))
                \<and> num_entries (vec_upd os i ov' ! nat (fst w - 1)) \<noteq> -1"
      using Cons.prems(2) u(2) by simp
    from Cons.prems(3) False w have bd': "\<exists>w \<in> set ws. ABSFUNC b (snd w) > ENTRY_MAX b"
      by auto
    from Cons.IH [OF u(1) tg' bd', of "max mv (ABSFUNC b nv)"] st w show ?thesis by simp
  qed
qed

section \<open>Well-formedness is kept by the mutating operations\<close>

lemma row_of_upd:
  "1 \<le> r \<Longrightarrow> r \<le> int (length (rows m)) \<Longrightarrow> 1 \<le> r' \<Longrightarrow>
   row_of (m\<lparr>rows := vec_upd (rows m) r rv', columns := os'\<rparr>) r' =
     (if r' = r then rv' else row_of m r')"
  by (simp add: row_of_def nth_vec_upd)

text \<open>Replacing one row and the family of columns, when the columns mirror the new row.\<close>

lemma wf_row_family_update:
  fixes m :: "('v::zero) SparseMatrix"
  assumes wf: "wf_matrix m" and r: "1 \<le> r" "r \<le> num_rows m"
    and rv': "vec_ok (num_cols m) rv'"
    and len: "length os' = length (columns m)"
    and fam: "\<forall>vec \<in> set os'. vec_ok (num_rows m) vec"
    and look: "\<forall>c k. 1 \<le> c \<longrightarrow> c \<le> num_cols m \<longrightarrow>
        find_entry (entries (os' ! nat (c - 1))) k =
          (if k = r then find_entry (entries rv') c
           else find_entry (entries (columns m ! nat (c - 1))) k)"
  shows "wf_matrix (m\<lparr>rows := vec_upd (rows m) r rv', columns := os'\<rparr>)"
proof -
  let ?m' = "m\<lparr>rows := vec_upd (rows m) r rv', columns := os'\<rparr>"
  from wf have lr: "int (length (rows m)) = num_rows m"
    and lc: "int (length (columns m)) = num_cols m"
    and rows_ok: "\<forall>vec \<in> set (rows m). vec_ok (num_cols m) vec"
    and dims: "1 \<le> num_rows m" "1 \<le> num_cols m"
    by (simp_all add: wf_matrix_def)
  have rows_ok': "\<forall>vec \<in> set (vec_upd (rows m) r rv'). vec_ok (num_cols m) vec"
    using rows_ok rv' set_vec_upd [of "rows m" r rv'] by blast
  have "bilateral ?m'"
    unfolding bilateral_def
  proof (intro ballI)
    fix r' c assume r': "r' \<in> {1..num_rows ?m'}" and c: "c \<in> {1..num_cols ?m'}"
    then have r'': "1 \<le> r'" "r' \<le> num_rows m" and c': "1 \<le> c" "c \<le> num_cols m" by simp_all
    have ro: "row_of ?m' r' = (if r' = r then rv' else row_of m r')"
      using r lr r'' by (intro row_of_upd) simp_all
    have co: "find_entry (entries (col_of ?m' c)) r' =
          (if r' = r then find_entry (entries rv') c
           else find_entry (entries (col_of m c)) r')"
      using look c' by (simp add: col_of_def)
    show "find_entry (entries (row_of ?m' r')) c = find_entry (entries (col_of ?m' c)) r'"
      using ro co wf_bilateral [OF wf r'' c'] by simp
  qed
  with dims lr lc len rows_ok' fam show ?thesis by (simp add: wf_matrix_def)
qed

lemma remove_as_add:
  "remove_v_entry ov k = Inr (val, ov') \<Longrightarrow> add_v_entry ov k 0 = Inr ov'"
  by (auto simp: add_v_entry_def remove_v_entry_def split: if_splits option.splits)

lemma erase_loop_result:
  assumes fam: "\<forall>vec \<in> set os. vec_ok mx vec"
    and k: "1 \<le> k" "k \<le> mx"
    and res: "erase_loop b es n k os = Inr (n', os')"
  shows "n' = n - int (length es) \<and> length os' = length os
       \<and> (\<forall>vec \<in> set os'. vec_ok mx vec)
       \<and> (\<forall>j. 1 \<le> j \<longrightarrow> j \<le> int (length os) \<longrightarrow>
             (num_entries (os' ! nat (j - 1)) = -1) = (num_entries (os ! nat (j - 1)) = -1))
       \<and> (\<forall>j key. 1 \<le> j \<longrightarrow> j \<le> int (length os) \<longrightarrow>
             find_entry (entries (os' ! nat (j - 1))) key =
               (if key = k \<and> j \<in> fst ` set es then None
                else find_entry (entries (os ! nat (j - 1))) key))"
  using fam res
proof (induction es arbitrary: os n)
  case Nil
  then show ?case by simp
next
  case (Cons e es)
  obtain i v where e: "e = (i, v)" by (cases e)
  from Cons.prems(2) e obtain ov val ov' where
    ov: "vec_at os i = Some ov" and rm: "remove_v_entry ov k = Inr (val, ov')"
    and rest: "erase_loop b es (n - 1) k (vec_upd os i ov') = Inr (n', os')"
    by (auto split: option.splits sum.splits prod.splits if_splits)
  from ov have i: "1 \<le> i" "i \<le> int (length os)" and ov_eq: "ov = os ! nat (i - 1)"
    by (simp_all add: vec_at_Some)
  from remove_as_add [OF rm] have a: "add_v_entry (os ! nat (i - 1)) k 0 = Inr ov'"
    by (simp add: ov_eq)
  note u = mirror_update [OF Cons.prems(1) k i a]
  note ih = Cons.IH [OF u(1) rest, simplified]
  have look: "find_entry (entries (os' ! nat (j - 1))) key =
               (if key = k \<and> j \<in> fst ` set (e # es) then None
                else find_entry (entries (os ! nat (j - 1))) key)"
    if j: "1 \<le> j" "j \<le> int (length os)" for j key
  proof -
    from ih j have e1: "find_entry (entries (os' ! nat (j - 1))) key =
               (if key = k \<and> j \<in> fst ` set es then None
                else find_entry (entries (vec_upd os i ov' ! nat (j - 1))) key)"
      by blast
    from u(3) j have e2: "find_entry (entries (vec_upd os i ov' ! nat (j - 1))) key =
             (if j = i \<and> key = k then nz 0 else find_entry (entries (os ! nat (j - 1))) key)"
      by blast
    from e1 e2 e show ?thesis by (auto simp: nz_def)
  qed
  have "n' = n - int (length (e # es))" using ih by simp
  moreover have "length os' = length os" using ih by simp
  moreover have "\<forall>vec \<in> set os'. vec_ok mx vec" using ih by blast
  moreover have "\<forall>j. 1 \<le> j \<longrightarrow> j \<le> int (length os) \<longrightarrow>
             (num_entries (os' ! nat (j - 1)) = -1) = (num_entries (os ! nat (j - 1)) = -1)"
    using ih u(2) by simp
  ultimately show ?case using look by blast
qed

lemma wf_erase_m_row:
  fixes m :: "('v::zero) SparseMatrix"
  assumes wf: "wf_matrix m" and res: "erase_m_row b m r d = Inr m'"
  shows "wf_matrix m'"
    and "row_of m' r = \<lparr>num_entries = (if d then -1 else 0), entries = []\<rparr>"
    and "num_rows m' = num_rows m" and "num_cols m' = num_cols m"
    and "\<forall>r'. 1 \<le> r' \<longrightarrow> r' \<noteq> r \<longrightarrow> row_of m' r' = row_of m r'"
    and "\<forall>c. 1 \<le> c \<longrightarrow> c \<le> num_cols m \<longrightarrow>
           (num_entries (col_of m' c) = -1) = (num_entries (col_of m c) = -1)"
proof -
  from res have chk: "check_m_indices m r 1"
    by (auto simp: erase_m_row_def split: if_splits)
  then have r: "1 \<le> r" "r \<le> num_rows m" by (auto simp: check_m_indices_def)
  note ra = wf_row_at [OF wf r]
  from wf have lr: "int (length (rows m)) = num_rows m"
    and lc: "int (length (columns m)) = num_cols m"
    and cols_ok: "\<forall>vec \<in> set (columns m). vec_ok (num_rows m) vec"
    by (simp_all add: wf_matrix_def)
  from res chk ra(1) obtain n' os' where
    live: "num_entries (row_of m r) \<noteq> -1"
    and lp: "erase_loop b (entries (row_of m r)) (num_entries (row_of m r)) r (columns m)
              = Inr (n', os')"
    and n0: "n' = 0"
    and m': "m' = m\<lparr>rows := vec_upd (rows m) r \<lparr>num_entries = (if d then -1 else 0), entries = []\<rparr>,
                     columns := os'\<rparr>"
    by (auto simp: erase_m_row_def erase_m_colrow_def
        split: if_splits sum.splits prod.splits)
  let ?rv' = "\<lparr>num_entries = (if d then -1 else 0), entries = []\<rparr> :: 'v SparseVector"
  note el = erase_loop_result [OF cols_ok r lp]
  have rv': "vec_ok (num_cols m) ?rv'" by (simp add: vec_ok_def)
  have look: "\<forall>c k. 1 \<le> c \<longrightarrow> c \<le> num_cols m \<longrightarrow>
        find_entry (entries (os' ! nat (c - 1))) k =
          (if k = r then find_entry (entries ?rv') c
           else find_entry (entries (columns m ! nat (c - 1))) k)"
  proof (intro allI impI)
    fix c k assume c: "1 \<le> c" "c \<le> num_cols m"
    from el c lc have e1: "find_entry (entries (os' ! nat (c - 1))) k =
               (if k = r \<and> c \<in> fst ` set (entries (row_of m r)) then None
                else find_entry (entries (columns m ! nat (c - 1))) k)"
      by simp
    have "find_entry (entries (columns m ! nat (c - 1))) r = None"
      if "c \<notin> fst ` set (entries (row_of m r))"
    proof -
      have "find_entry (entries (row_of m r)) c = None"
      proof (cases "find_entry (entries (row_of m r)) c")
        case None
        then show ?thesis .
      next
        case (Some v)
        from find_entry_Some_mem [OF this] that show ?thesis by force
      qed
      with wf_bilateral [OF wf r c] show ?thesis by (simp add: col_of_def)
    qed
    with e1 show "find_entry (entries (os' ! nat (c - 1))) k =
          (if k = r then find_entry (entries ?rv') c
           else find_entry (entries (columns m ! nat (c - 1))) k)"
      by auto
  qed
  from el have len: "length os' = length (columns m)" and fam: "\<forall>vec \<in> set os'. vec_ok (num_rows m) vec"
    by simp_all
  show "wf_matrix m'" unfolding m'
    using wf r rv' len fam look by (rule wf_row_family_update)
  show "row_of m' r = \<lparr>num_entries = (if d then -1 else 0), entries = []\<rparr>"
    unfolding m' using r lr by (simp add: row_of_upd)
  show "num_rows m' = num_rows m" "num_cols m' = num_cols m" by (simp_all add: m')
  show "\<forall>r'. 1 \<le> r' \<longrightarrow> r' \<noteq> r \<longrightarrow> row_of m' r' = row_of m r'"
    unfolding m' using r lr by (simp add: row_of_upd)
  show "\<forall>c. 1 \<le> c \<longrightarrow> c \<le> num_cols m \<longrightarrow>
           (num_entries (col_of m' c) = -1) = (num_entries (col_of m c) = -1)"
    using el lc by (simp add: m' col_of_def)
qed

lemma transpose_simps [simp]:
  "num_rows (transpose_m m) = num_cols m" "num_cols (transpose_m m) = num_rows m"
  "rows (transpose_m m) = columns m" "columns (transpose_m m) = rows m"
  "transpose_m (transpose_m m) = m"
  by (simp_all add: transpose_m_def)

lemma row_of_transpose [simp]:
  "row_of (transpose_m m) i = col_of m i" "col_of (transpose_m m) i = row_of m i"
  by (simp_all add: row_of_def col_of_def)

lemma check_m_indices_transpose [simp]:
  "check_m_indices (transpose_m m) r c = check_m_indices m c r"
  by (auto simp: check_m_indices_def)

lemma bilateral_transpose: "bilateral (transpose_m m) = bilateral m"
  by (auto simp: bilateral_def)

lemma wf_transpose [simp]: "wf_matrix (transpose_m m) = wf_matrix m"
  by (auto simp: wf_matrix_def bilateral_transpose)

lemma transpose_upd:
  "transpose_m ((transpose_m m)\<lparr>rows := X, columns := Y\<rparr>) = m\<lparr>columns := X, rows := Y\<rparr>"
  by (simp add: transpose_m_def)

lemma erase_m_column_transpose:
  "erase_m_column b m c d =
     (case erase_m_row b (transpose_m m) c d of Inl e \<Rightarrow> Inl e | Inr m' \<Rightarrow> Inr (transpose_m m'))"
  by (auto simp: erase_m_column_def erase_m_row_def transpose_upd
      split: option.splits sum.splits prod.splits)

lemma add_m_cols_transpose:
  "add_m_cols b m c1 c2 s =
     (case add_m_rows b (transpose_m m) c1 c2 s of
        Inl e \<Rightarrow> Inl e | Inr (mv, m') \<Rightarrow> Inr (mv, transpose_m m'))"
  by (auto simp: add_m_cols_def add_m_rows_def transpose_upd
      split: option.splits sum.splits prod.splits)

lemma wf_erase_m_column:
  fixes m :: "('v::zero) SparseMatrix"
  assumes wf: "wf_matrix m" and res: "erase_m_column b m c d = Inr m'"
  shows "wf_matrix m'"
    and "col_of m' c = \<lparr>num_entries = (if d then -1 else 0), entries = []\<rparr>"
    and "num_rows m' = num_rows m" and "num_cols m' = num_cols m"
    and "\<forall>c'. 1 \<le> c' \<longrightarrow> c' \<noteq> c \<longrightarrow> col_of m' c' = col_of m c'"
    and "\<forall>r. 1 \<le> r \<longrightarrow> r \<le> num_rows m \<longrightarrow>
           (num_entries (row_of m' r) = -1) = (num_entries (row_of m r) = -1)"
proof -
  from res obtain t where t: "erase_m_row b (transpose_m m) c d = Inr t" and m': "m' = transpose_m t"
    by (auto simp: erase_m_column_transpose split: sum.splits)
  from wf have wft: "wf_matrix (transpose_m m)" by simp
  note e = wf_erase_m_row [OF wft t]
  from e(1) show "wf_matrix m'" by (simp add: m')
  from e(2) show "col_of m' c = \<lparr>num_entries = (if d then -1 else 0), entries = []\<rparr>"
    by (simp add: m')
  from e(3,4) show "num_rows m' = num_rows m" "num_cols m' = num_cols m" by (simp_all add: m')
  from e(5) show "\<forall>c'. 1 \<le> c' \<longrightarrow> c' \<noteq> c \<longrightarrow> col_of m' c' = col_of m c'" by (simp add: m')
  from e(6) show "\<forall>r. 1 \<le> r \<longrightarrow> r \<le> num_rows m \<longrightarrow>
           (num_entries (row_of m' r) = -1) = (num_entries (row_of m r) = -1)"
    by (simp add: m')
qed

text \<open>Writing one cell in both views (\<open>val = 0\<close> removes it).\<close>

lemma wf_cell_update:
  fixes m :: "('v::zero) SparseMatrix"
  assumes wf: "wf_matrix m" and rc: "check_m_indices m r c"
    and a1: "add_v_entry (row_of m r) c val = Inr rv'"
    and a2: "add_v_entry (col_of m c) r val = Inr cv'"
  shows "wf_matrix (m\<lparr>rows := vec_upd (rows m) r rv', columns := vec_upd (columns m) c cv'\<rparr>)"
proof -
  from rc have r: "1 \<le> r" "r \<le> num_rows m" and c: "1 \<le> c" "c \<le> num_cols m"
    by (auto simp: check_m_indices_def)
  note ra = wf_row_at [OF wf r] and ca = wf_col_at [OF wf c]
  from wf have lc: "int (length (columns m)) = num_cols m"
    and cols_ok: "\<forall>vec \<in> set (columns m). vec_ok (num_rows m) vec"
    by (simp_all add: wf_matrix_def)
  from a1 have l1: "num_entries (row_of m r) \<noteq> -1"
    by (auto simp: add_v_entry_def split: if_splits)
  from add_v_entry_live [OF ra(2) l1 c, of val] a1 have
    rv': "vec_ok (num_cols m) rv'"
    and f1: "\<forall>j. find_entry (entries rv') j =
        (if j = c then nz val else find_entry (entries (row_of m r)) j)"
    by (auto simp: nz_def)
  from c lc have c2: "c \<le> int (length (columns m))" by simp
  from a2 have a2': "add_v_entry (columns m ! nat (c - 1)) r val = Inr cv'"
    by (simp add: col_of_def)
  note u = mirror_update [OF cols_ok r c(1) c2 a2']
  have look: "\<forall>c' k. 1 \<le> c' \<longrightarrow> c' \<le> num_cols m \<longrightarrow>
        find_entry (entries (vec_upd (columns m) c cv' ! nat (c' - 1))) k =
          (if k = r then find_entry (entries rv') c'
           else find_entry (entries (columns m ! nat (c' - 1))) k)"
  proof (intro allI impI)
    fix c' k assume c': "1 \<le> c'" "c' \<le> num_cols m"
    from u(3) c' lc have e: "find_entry (entries (vec_upd (columns m) c cv' ! nat (c' - 1))) k =
             (if c' = c \<and> k = r then nz val
              else find_entry (entries (columns m ! nat (c' - 1))) k)"
      by simp
    from wf_bilateral [OF wf r c'] have
      "find_entry (entries (row_of m r)) c' = find_entry (entries (columns m ! nat (c' - 1))) r"
      by (simp add: col_of_def)
    with e f1 show "find_entry (entries (vec_upd (columns m) c cv' ! nat (c' - 1))) k =
          (if k = r then find_entry (entries rv') c'
           else find_entry (entries (columns m ! nat (c' - 1))) k)"
      by auto
  qed
  show ?thesis
    using wf r rv' _ u(1) look by (rule wf_row_family_update) simp
qed

lemma wf_remove_m_entry:
  fixes m :: "('v::zero) SparseMatrix"
  assumes wf: "wf_matrix m" and res: "remove_m_entry b m r c = Inr (w, m')"
  shows "wf_matrix m'"
proof -
  from res have rc: "check_m_indices m r c"
    by (auto simp: remove_m_entry_def split: if_splits)
  then have r: "1 \<le> r" "r \<le> num_rows m" and c: "1 \<le> c" "c \<le> num_cols m"
    by (auto simp: check_m_indices_def)
  note ra = wf_row_at [OF wf r] and ca = wf_col_at [OF wf c]
  from res rc ra(1) ca(1) obtain valr rv' valc cv' where
    r1: "remove_v_entry (row_of m r) c = Inr (valr, rv')"
    and r2: "remove_v_entry (col_of m c) r = Inr (valc, cv')"
    and m': "m' = m\<lparr>rows := vec_upd (rows m) r rv', columns := vec_upd (columns m) c cv'\<rparr>"
    by (auto simp: remove_m_entry_def split: if_splits sum.splits prod.splits)
  show ?thesis unfolding m'
    using wf rc remove_as_add [OF r1] remove_as_add [OF r2] by (rule wf_cell_update)
qed

lemma wf_add_m_entry:
  fixes m :: "('v::zero) SparseMatrix"
  assumes wf: "wf_matrix m" and res: "add_m_entry b m r c v = Inr m'"
  shows "wf_matrix m'"
proof (cases "v = 0")
  case True
  with res obtain w where "remove_m_entry b m r c = Inr (w, m')"
    by (auto simp: add_m_entry_def split: if_splits sum.splits prod.splits)
  with wf show ?thesis by (rule wf_remove_m_entry)
next
  case False
  from res have rc: "check_m_indices m r c"
    by (auto simp: add_m_entry_def split: if_splits)
  then have r: "1 \<le> r" "r \<le> num_rows m" and c: "1 \<le> c" "c \<le> num_cols m"
    by (auto simp: check_m_indices_def)
  note ra = wf_row_at [OF wf r] and ca = wf_col_at [OF wf c]
  from res rc False ra(1) ca(1) obtain rv' cv' where
    r1: "add_v_entry (row_of m r) c v = Inr rv'"
    and r2: "add_v_entry (col_of m c) r v = Inr cv'"
    and m': "m' = m\<lparr>rows := vec_upd (rows m) r rv', columns := vec_upd (columns m) c cv'\<rparr>"
    by (auto simp: add_m_entry_def split: if_splits sum.splits)
  show ?thesis unfolding m' using wf rc r1 r2 by (rule wf_cell_update)
qed

section \<open>Adding rows and columns\<close>

lemma add_m_rows_unfold:
  fixes m :: "('v::{zero,plus,times}) SparseMatrix"
  assumes wf: "wf_matrix m" and r1: "1 \<le> r1" "r1 \<le> num_rows m"
    and r2: "1 \<le> r2" "r2 \<le> num_rows m"
    and l1: "num_entries (row_of m r1) \<noteq> -1" and l2: "num_entries (row_of m r2) \<noteq> -1"
  shows "add_m_rows b m r1 r2 s =
     (case mirror_all b r1 (merge_writes s (entries (row_of m r1)) (entries (row_of m r2))) 0
             (columns m) of
        Inl e \<Rightarrow> Inl e
      | Inr (mv, os') \<Rightarrow>
          Inr (mv, m\<lparr>rows := vec_upd (rows m) r1
                 \<lparr>num_entries = int (length (merge_spec s (entries (row_of m r1))
                                                (entries (row_of m r2)))),
                  entries = merge_spec s (entries (row_of m r1)) (entries (row_of m r2))\<rparr>,
                 columns := os'\<rparr>))"
proof -
  from wf have dims: "1 \<le> num_cols m" by (simp add: wf_matrix_def)
  with r1 r2 have chk: "check_m_indices m r1 1" "check_m_indices m r2 1"
    by (simp_all add: check_m_indices_def)
  note a1 = wf_row_at [OF wf r1] and a2 = wf_row_at [OF wf r2]
  have cnt: "num_entries (row_of m r1) = int (length (entries (row_of m r1)))"
    using a1(2) l1 by (rule vec_ok_live_count)
  show ?thesis
    using chk a1(1) a2(1) l1 l2 cnt
    by (simp add: add_m_rows_def add_m_colrows_def merge_loop_eq
        split: sum.splits prod.splits)
qed

lemma wf_row_entry_target:
  fixes m :: "('v::zero) SparseMatrix"
  assumes wf: "wf_matrix m" and r: "1 \<le> r" "r \<le> num_rows m"
    and mem: "i \<in> fst ` set (entries (row_of m r))"
  shows "1 \<le> i \<and> i \<le> int (length (columns m)) \<and> num_entries (columns m ! nat (i - 1)) \<noteq> -1"
proof -
  note a = wf_row_at [OF wf r]
  from mem obtain v where v: "(i, v) \<in> set (entries (row_of m r))" by force
  with a(2) have i: "1 \<le> i" "i \<le> num_cols m" by (auto simp: vec_ok_def)
  from a(2) have "idx_sorted (entries (row_of m r))" by (simp add: vec_ok_def)
  from mem_find_entry [OF this v] wf_bilateral [OF wf r i]
  have f: "find_entry (entries (col_of m i)) r = Some v" by simp
  note c = wf_col_at [OF wf i]
  have "num_entries (col_of m i) \<noteq> -1"
  proof
    assume "num_entries (col_of m i) = -1"
    with c(2) have "entries (col_of m i) = []" by (rule vec_ok_deleted_empty)
    with f show False by simp
  qed
  moreover from wf have "int (length (columns m)) = num_cols m" by (simp add: wf_matrix_def)
  ultimately show ?thesis using i by (simp add: col_of_def)
qed

lemma add_m_rows_result:
  fixes m :: "('v::{zero,plus,times}) SparseMatrix"
  assumes wf: "wf_matrix m" and res: "add_m_rows b m r1 r2 s = Inr (mv, m')"
  shows "wf_matrix m'"
    and "entries (row_of m' r1) = merge_spec s (entries (row_of m r1)) (entries (row_of m r2))"
    and "num_entries (row_of m' r1) \<noteq> -1"
    and "\<forall>r'. 1 \<le> r' \<longrightarrow> r' \<noteq> r1 \<longrightarrow> row_of m' r' = row_of m r'"
    and "num_rows m' = num_rows m" and "num_cols m' = num_cols m"
    and "\<forall>c. 1 \<le> c \<longrightarrow> c \<le> num_cols m \<longrightarrow>
           (num_entries (col_of m' c) = -1) = (num_entries (col_of m c) = -1)"
    and "\<forall>w \<in> set (merge_writes s (entries (row_of m r1)) (entries (row_of m r2))).
           ABSFUNC b (snd w) \<le> ENTRY_MAX b"
    and "mv = fold (\<lambda>w x. max x (ABSFUNC b (snd w)))
                (merge_writes s (entries (row_of m r1)) (entries (row_of m r2))) 0"
    and "1 \<le> r1 \<and> r1 \<le> num_rows m \<and> 1 \<le> r2 \<and> r2 \<le> num_rows m"
    and "num_entries (row_of m r1) \<noteq> -1 \<and> num_entries (row_of m r2) \<noteq> -1"
proof -
  let ?es1 = "entries (row_of m r1)" and ?es2 = "entries (row_of m r2)"
  let ?ws = "merge_writes s ?es1 ?es2" and ?sp = "merge_spec s ?es1 ?es2"
  let ?rv' = "\<lparr>num_entries = int (length ?sp), entries = ?sp\<rparr>"
  from res have chk: "check_m_indices m r1 1" "check_m_indices m r2 1"
    by (auto simp: add_m_rows_def split: if_splits)
  then have r1: "1 \<le> r1" "r1 \<le> num_rows m" and r2: "1 \<le> r2" "r2 \<le> num_rows m"
    by (auto simp: check_m_indices_def)
  then show "1 \<le> r1 \<and> r1 \<le> num_rows m \<and> 1 \<le> r2 \<and> r2 \<le> num_rows m" by simp
  note a1 = wf_row_at [OF wf r1] and a2 = wf_row_at [OF wf r2]
  from res chk a1(1) a2(1) have l1: "num_entries (row_of m r1) \<noteq> -1"
    and l2: "num_entries (row_of m r2) \<noteq> -1"
    by (auto simp: add_m_rows_def add_m_colrows_def split: if_splits)
  then show "num_entries (row_of m r1) \<noteq> -1 \<and> num_entries (row_of m r2) \<noteq> -1" by simp
  from res add_m_rows_unfold [OF wf r1 r2 l1 l2, of b s] obtain os' where
    mir: "mirror_all b r1 ?ws 0 (columns m) = Inr (mv, os')"
    and m': "m' = m\<lparr>rows := vec_upd (rows m) r1 ?rv', columns := os'\<rparr>"
    by (auto split: sum.splits prod.splits)
  from wf have lr: "int (length (rows m)) = num_rows m"
    and lc: "int (length (columns m)) = num_cols m"
    and cols_ok: "\<forall>vec \<in> set (columns m). vec_ok (num_rows m) vec"
    by (simp_all add: wf_matrix_def)
  from a1(2) a2(2) have s1: "idx_sorted ?es1" and s2: "idx_sorted ?es2"
    by (simp_all add: vec_ok_def)
  have sw: "idx_sorted ?ws" using s2 by (rule idx_sorted_merge_writes)
  note mr = mirror_all_result [OF cols_ok r1 sw mir]
  have rv': "vec_ok (num_cols m) ?rv'"
    unfolding vec_ok_def
  proof (intro conjI)
    show "idx_sorted (entries ?rv')" using s1 s2 by (simp add: idx_sorted_merge_spec)
    show "\<forall>e \<in> set (entries ?rv'). 1 \<le> fst e \<and> fst e \<le> num_cols m \<and> snd e \<noteq> 0"
    proof
      fix e assume e: "e \<in> set (entries ?rv')"
      then have "fst e \<in> fst ` set ?es1 \<union> fst ` set ?es2"
        using fst_set_merge_spec [of s ?es1 ?es2] by auto
      then have "fst e \<in> fst ` (set ?es1 \<union> set ?es2)" by (simp add: image_Un)
      then have "\<exists>e' \<in> set ?es1 \<union> set ?es2. fst e' = fst e"
        unfolding image_iff by (rule bexE) (rule bexI, rule sym)
      then obtain e' where "e' \<in> set ?es1 \<union> set ?es2" "fst e' = fst e" by blast
      with a1(2) a2(2) have "1 \<le> fst e \<and> fst e \<le> num_cols m"
        by (auto simp: vec_ok_def)
      moreover have "snd e \<noteq> 0"
        using snd_set_merge_spec [of ?es1 s ?es2] a1(2) e by (auto simp: vec_ok_def)
      ultimately show "1 \<le> fst e \<and> fst e \<le> num_cols m \<and> snd e \<noteq> 0" by simp
    qed
    show "if num_entries ?rv' = -1 then entries ?rv' = []
          else num_entries ?rv' = int (length (entries ?rv'))"
      by simp
  qed
  have look: "\<forall>c k. 1 \<le> c \<longrightarrow> c \<le> num_cols m \<longrightarrow>
        find_entry (entries (os' ! nat (c - 1))) k =
          (if k = r1 then find_entry (entries ?rv') c
           else find_entry (entries (columns m ! nat (c - 1))) k)"
  proof (intro allI impI)
    fix c k assume c: "1 \<le> c" "c \<le> num_cols m"
    from mr c lc have e1: "find_entry (entries (os' ! nat (c - 1))) k =
               (case find_entry ?ws c of
                  Some nv \<Rightarrow> if k = r1 then nz nv
                             else find_entry (entries (columns m ! nat (c - 1))) k
                | None \<Rightarrow> find_entry (entries (columns m ! nat (c - 1))) k)"
      by simp
    have bil: "find_entry ?es1 c = find_entry (entries (columns m ! nat (c - 1))) r1"
      using wf_bilateral [OF wf r1 c] by (simp add: col_of_def)
    show "find_entry (entries (os' ! nat (c - 1))) k =
          (if k = r1 then find_entry (entries ?rv') c
           else find_entry (entries (columns m ! nat (c - 1))) k)"
      using e1 bil
      by (auto simp: find_merge_writes [OF s1 s2] find_merge_spec [OF s1 s2]
          split: option.splits)
  qed
  from mr have len: "length os' = length (columns m)"
    and fam: "\<forall>vec \<in> set os'. vec_ok (num_rows m) vec" by simp_all
  show "wf_matrix m'" unfolding m'
    using wf r1 rv' len fam look by (rule wf_row_family_update)
  have ro: "row_of m' r1 = ?rv'" unfolding m' using r1 lr by (simp add: row_of_upd)
  then show "entries (row_of m' r1) = ?sp" and "num_entries (row_of m' r1) \<noteq> -1"
    by simp_all
  show "\<forall>r'. 1 \<le> r' \<longrightarrow> r' \<noteq> r1 \<longrightarrow> row_of m' r' = row_of m r'"
    unfolding m' using r1 lr by (simp add: row_of_upd)
  show "num_rows m' = num_rows m" "num_cols m' = num_cols m" by (simp_all add: m')
  show "\<forall>c. 1 \<le> c \<longrightarrow> c \<le> num_cols m \<longrightarrow>
           (num_entries (col_of m' c) = -1) = (num_entries (col_of m c) = -1)"
    using mr lc by (simp add: m' col_of_def)
  from mr show "\<forall>w \<in> set ?ws. ABSFUNC b (snd w) \<le> ENTRY_MAX b" by blast
  from mr show "mv = fold (\<lambda>w x. max x (ABSFUNC b (snd w))) ?ws 0" by blast
qed

lemma add_m_rows_targets:
  fixes m :: "('v::{zero,plus,times}) SparseMatrix"
  assumes wf: "wf_matrix m" and r2: "1 \<le> r2" "r2 \<le> num_rows m"
  shows "\<forall>w \<in> set (merge_writes s es1 (entries (row_of m r2))).
           1 \<le> fst w \<and> fst w \<le> int (length (columns m))
           \<and> num_entries (columns m ! nat (fst w - 1)) \<noteq> -1"
proof
  fix w assume "w \<in> set (merge_writes s es1 (entries (row_of m r2)))"
  then have "fst w \<in> set (map fst (merge_writes s es1 (entries (row_of m r2))))" by simp
  then have "fst w \<in> fst ` set (entries (row_of m r2))"
    by (simp add: map_fst_merge_writes)
  with wf r2 show "1 \<le> fst w \<and> fst w \<le> int (length (columns m))
           \<and> num_entries (columns m ! nat (fst w - 1)) \<noteq> -1"
    by (rule wf_row_entry_target)
qed

lemma add_m_rows_succeeds:
  fixes m :: "('v::{zero,plus,times}) SparseMatrix"
  assumes wf: "wf_matrix m" and r1: "1 \<le> r1" "r1 \<le> num_rows m"
    and r2: "1 \<le> r2" "r2 \<le> num_rows m"
    and l1: "num_entries (row_of m r1) \<noteq> -1" and l2: "num_entries (row_of m r2) \<noteq> -1"
    and bd: "\<forall>w \<in> set (merge_writes s (entries (row_of m r1)) (entries (row_of m r2))).
               ABSFUNC b (snd w) \<le> ENTRY_MAX b"
  shows "\<exists>mv m'. add_m_rows b m r1 r2 s = Inr (mv, m')"
proof -
  from wf have cols_ok: "\<forall>vec \<in> set (columns m). vec_ok (num_rows m) vec"
    by (simp add: wf_matrix_def)
  from mirror_all_succeeds [OF cols_ok r1 add_m_rows_targets [OF wf r2] bd, of 0]
  show ?thesis
    by (auto simp: add_m_rows_unfold [OF wf r1 r2 l1 l2])
qed

lemma add_m_rows_fails:
  fixes m :: "('v::{zero,plus,times}) SparseMatrix"
  assumes wf: "wf_matrix m" and r1: "1 \<le> r1" "r1 \<le> num_rows m"
    and r2: "1 \<le> r2" "r2 \<le> num_rows m"
    and l1: "num_entries (row_of m r1) \<noteq> -1" and l2: "num_entries (row_of m r2) \<noteq> -1"
    and bd: "\<exists>w \<in> set (merge_writes s (entries (row_of m r1)) (entries (row_of m r2))).
               ABSFUNC b (snd w) > ENTRY_MAX b"
  shows "add_m_rows b m r1 r2 s = Inl TooBig"
proof -
  from wf have cols_ok: "\<forall>vec \<in> set (columns m). vec_ok (num_rows m) vec"
    by (simp add: wf_matrix_def)
  from mirror_all_too_big [OF cols_ok r1 add_m_rows_targets [OF wf r2] bd, of 0]
  show ?thesis
    by (simp add: add_m_rows_unfold [OF wf r1 r2 l1 l2])
qed

lemma add_m_rows_deleted:
  fixes m :: "('v::{zero,plus,times}) SparseMatrix"
  assumes wf: "wf_matrix m" and r1: "1 \<le> r1" "r1 \<le> num_rows m"
    and r2: "1 \<le> r2" "r2 \<le> num_rows m"
    and del: "num_entries (row_of m r1) = -1 \<or> num_entries (row_of m r2) = -1"
  shows "add_m_rows b m r1 r2 s = Inl Deleted"
proof -
  from wf have dims: "1 \<le> num_cols m" by (simp add: wf_matrix_def)
  with r1 r2 have chk: "check_m_indices m r1 1" "check_m_indices m r2 1"
    by (simp_all add: check_m_indices_def)
  note a1 = wf_row_at [OF wf r1] and a2 = wf_row_at [OF wf r2]
  from chk a1(1) a2(1) del show ?thesis
    by (auto simp: add_m_rows_def add_m_colrows_def)
qed

section \<open>The coefficient algebra\<close>






text \<open>
  The spec's formula for the magnitude, \<open>max(|a|,|b|)\<close>, does not meet the contract
  \<open>unit_magnitude\<close>: it rates \<open>1 - t\<close> as 1, and \<open>1 - t\<close> is no unit.
\<close>

lemma magnitude_spec_not_unit:
  "\<not> unit_magnitude sparmat_U_spec
   \<and> magnitude_spec (Uval 1 (- 1)) = 1
   \<and> mult_Uvals (Uval 1 (- 1)) (Uval 1 (- 1)) = (Uval 2 (- 2) :: int Uval)"
proof -
  have "ABSFUNC sparmat_U_spec (Uval 1 (- 1)) = 1"
    by (simp add: sparmat_U_spec_def sparmat_U_def)
  moreover have "Uval 1 (- 1) \<notin> {Uval 1 0, Uval (- 1) 0, Uval 0 1, Uval 0 (- 1 :: int)}"
    by simp
  ultimately have "\<not> unit_magnitude sparmat_U_spec"
    unfolding unit_magnitude_def by blast
  then show ?thesis by simp
qed

section \<open>Reading cells\<close>

text \<open>
  C9. Reading a cell whose row or column is deleted is not an error: in a well-formed
  matrix, for every pair of indices in range, if the row or the column is marked
  deleted then \<open>get_m_entry\<close> succeeds and returns zero. \<open>get_v_entry\<close> does not look at
  the deletion mark, a deleted vector has no entries, and by bilateral consistency the
  orthogonal vector has no entry at that position either.
\<close>

theorem get_m_entry_tombstoned:
  fixes m :: "('v::zero) SparseMatrix"
  assumes wf: "wf_matrix m"
    and rng: "check_m_indices m r c"
    and tomb: "num_entries (row_of m r) = -1 \<or> num_entries (col_of m c) = -1"
  shows "get_m_entry m r c = Inr 0"
proof -
  from rng have r: "1 \<le> r" "r \<le> num_rows m" and c: "1 \<le> c" "c \<le> num_cols m"
    by (auto simp: check_m_indices_def)
  note ra = wf_row_at [OF wf r] and ca = wf_col_at [OF wf c]
  have bil: "find_entry (entries (row_of m r)) c = find_entry (entries (col_of m c)) r"
    using wf r c by (rule wf_bilateral)
  have "find_entry (entries (row_of m r)) c = None"
  proof (cases "num_entries (row_of m r) = -1")
    case True
    with ra(2) have "entries (row_of m r) = []" by (rule vec_ok_deleted_empty)
    then show ?thesis by simp
  next
    case False
    with tomb have "num_entries (col_of m c) = -1" by simp
    with ca(2) have "entries (col_of m c) = []" by (rule vec_ok_deleted_empty)
    with bil show ?thesis by simp
  qed
  with bil have "get_v_entry (row_of m r) c = 0" "get_v_entry (col_of m c) r = 0"
    by (simp_all add: get_v_entry_def)
  with rng ra(1) ca(1) show ?thesis by (simp add: get_m_entry_def)
qed

theorem get_m_entry_tombstoned_witness:
  "wf_matrix tomb_example \<and> check_m_indices tomb_example 2 1
   \<and> num_entries (row_of tomb_example 2) = -1
   \<and> get_m_entry tomb_example 2 1 = Inr 0"
proof -
  have up: "{1..2} = {1, 2::int}" by auto
  have h1: "wf_matrix tomb_example"
    by (simp add: wf_matrix_def tomb_example_def vec_ok_def idx_sorted_def bilateral_def
        row_of_def col_of_def up)
  have h2: "check_m_indices tomb_example 2 1"
    by (simp add: check_m_indices_def tomb_example_def)
  have h3: "num_entries (row_of tomb_example 2) = -1"
    by (simp add: row_of_def tomb_example_def)
  from h3 have h3': "num_entries (row_of tomb_example 2) = -1
      \<or> num_entries (col_of tomb_example 1) = -1" ..
  have "get_m_entry tomb_example 2 1 = Inr 0"
    by (rule get_m_entry_tombstoned [OF h1 h2 h3'])
  with h1 h2 h3 show ?thesis by simp
qed

section \<open>The consistency checker on a wide matrix\<close>

text \<open>
  C7 (the code departs from the claim). The claim is that \<open>check_m_data\<close> returns 0 on
  every well-formed matrix of any shape. The 1 x 2 matrix \<open>wide_example\<close> is well
  formed, and \<open>check_m_data\<close> rejects it with "index is too big": the loop over the rows
  passes \<open>n_rows\<close> as the largest index allowed, where the entries of a row are indexed
  by columns.
\<close>

theorem check_m_data_rejects_wide:
  "wf_matrix wide_example
   \<and> check_m_data wide_example = Inl (CheckFailed ''index is too big'')"
proof -
  have up: "{1..2} = {1, 2::int}" by auto
  have "wf_matrix wide_example"
    by (simp add: wf_matrix_def wide_example_def vec_ok_def idx_sorted_def bilateral_def
        row_of_def col_of_def up)
  moreover have "check_m_data wide_example = Inl (CheckFailed ''index is too big'')"
    by (simp add: check_m_data_def wide_example_def vec_at_def check_v_data_def)
  ultimately show ?thesis ..
qed

theorem check_m_data_rejects_wide_witness:
  "check_m_data wide_example \<noteq> Inr ()"
  using check_m_data_rejects_wide by simp

section \<open>Overflow\<close>

lemma sint_ERR_MVAL: "sint ERR_MVAL = 2147483647"
  by (simp add: ERR_MVAL_def INT_MAX_def)

lemma abs_int_ERR_MVAL: "abs_int ERR_MVAL = 2147483647"
  by (simp add: abs_int_def ERR_MVAL_def INT_MAX_def)

lemma ENTRY_MAX_sparmat_c: "ENTRY_MAX sparmat_c = 1073741823"
  by (simp add: sparmat_c_def INT_MAX_def)

lemma ABSFUNC_sparmat_c: "ABSFUNC sparmat_c = abs_int"
  by (simp add: sparmat_c_def)

lemma sint_neg32: "sint (v::32 word) \<noteq> - 2147483648 \<Longrightarrow> sint (- v) = - sint v"
proof -
  assume a: "sint v \<noteq> - 2147483648"
  have r: "- 2147483648 \<le> sint v" "sint v < 2147483648"
    using sint_ge [of v] sint_lt [of v] by simp_all
  have "sint (- v) = signed_take_bit 31 (- sint v)" by (simp add: sint_word_minus)
  also have "\<dots> = - sint v"
    using a r by (intro signed_take_bit_int_eq_self) auto
  finally show ?thesis .
qed

lemma abs_int_abs: "sint v \<noteq> - 2147483648 \<Longrightarrow> abs_int v = \<bar>sint v\<bar>"
  by (simp add: abs_int_def sint_neg32)

text \<open>The admission test of \<open>add_m_entry\<close> does reject every value beyond the bound.\<close>

lemma add_m_entry_rejects_big:
  "check_m_indices m r c \<Longrightarrow> \<bar>sint v\<bar> > ENTRY_MAX sparmat_c \<Longrightarrow>
   add_m_entry sparmat_c m r c v = Inl TooBig"
  by (auto simp: add_m_entry_def sparmat_c_def)

text \<open>
  C5 (the code departs from the claim). The claim is that an intermediate entry beyond
  \<open>ENTRY_MAX\<close> always surfaces as the error "entry's value is too big" and is never
  stored wrapped around. In \<open>ovf_example\<close> every value is within the bound; adding
  65536 times row 2 to row 1 makes the entry 65536 * 65537 = 4295032832, which is
  beyond the bound. \<open>add_m_colrows\<close> computes the product in \<open>int\<close> arithmetic and tests
  the result only afterwards, so the call succeeds, returns 65536 and stores the
  wrapped value 65536 at (1, 1).
\<close>

theorem add_m_rows_wraps:
  "vals_bounded sparmat_c ovf_example
   \<and> ENTRY_MAX sparmat_c < sint (65536 :: SM_value_t) * sint (65537 :: SM_value_t)
   \<and> add_m_rows sparmat_c ovf_example 1 2 65536 =
       Inr (65536,
            \<lparr>num_rows = 2, num_cols = 1,
             rows = [\<lparr>num_entries = 1, entries = [(1, 65536)]\<rparr>,
                     \<lparr>num_entries = 1, entries = [(1, 65537)]\<rparr>],
             columns = [\<lparr>num_entries = 2, entries = [(1, 65536), (2, 65537)]\<rparr>]\<rparr>)"
proof -
  have a: "vals_bounded sparmat_c ovf_example"
    by (simp add: vals_bounded_def ovf_example_def sparmat_c_def abs_int_def INT_MAX_def)
  have b: "ENTRY_MAX sparmat_c < sint (65536 :: SM_value_t) * sint (65537 :: SM_value_t)"
    by (simp add: ENTRY_MAX_sparmat_c)
  have c: "add_m_rows sparmat_c ovf_example 1 2 65536 =
       Inr (65536,
            \<lparr>num_rows = 2, num_cols = 1,
             rows = [\<lparr>num_entries = 1, entries = [(1, 65536)]\<rparr>,
                     \<lparr>num_entries = 1, entries = [(1, 65537)]\<rparr>],
             columns = [\<lparr>num_entries = 2, entries = [(1, 65536), (2, 65537)]\<rparr>]\<rparr>)"
    by (simp add: add_m_rows_def ovf_example_def check_m_indices_def vec_at_def vec_upd_def
        add_m_colrows_def merge_step_def add_v_entry_def sparmat_c_def abs_int_def
        INT_MAX_def)
  from a b c show ?thesis by blast
qed

theorem add_m_rows_wraps_witness:
  "add_m_rows sparmat_c ovf_example 1 2 65536 \<noteq> Inl TooBig"
  using add_m_rows_wraps by simp

section \<open>The error sentinel\<close>

lemma remove_v_entry_entries:
  "remove_v_entry vec i = Inr (val, vec') \<Longrightarrow> set (entries vec') \<subseteq> set (entries vec)"
  using set_unlink_entry [of "entries vec" i]
  by (auto simp: remove_v_entry_def split: if_splits option.splits)

lemma remove_v_entry_value:
  "remove_v_entry vec i = Inr (val, vec') \<Longrightarrow> val = 0 \<or> (i, val) \<in> set (entries vec)"
  by (auto simp: remove_v_entry_def split: if_splits option.splits dest: find_entry_Some_mem)

lemma add_v_entry_entries:
  "add_v_entry vec i v = Inr vec' \<Longrightarrow> set (entries vec') \<subseteq> insert (i, v) (set (entries vec))"
  using set_link_entry [of "entries vec" i v] set_unlink_entry [of "entries vec" i]
  by (auto simp: add_v_entry_def remove_v_entry_def split: if_splits option.splits)

lemma get_v_entry_value:
  "get_v_entry vec i = 0 \<or> (i, get_v_entry vec i) \<in> set (entries vec)"
  by (auto simp: get_v_entry_def split: option.splits dest: find_entry_Some_mem)

lemma abs_int_zero: "abs_int 0 = 0"
  by (simp add: abs_int_def)

lemma bounded_not_sentinel:
  "abs_int v \<le> ENTRY_MAX sparmat_c \<Longrightarrow> v \<noteq> ERR_MVAL"
  using abs_int_ERR_MVAL by (auto simp: ENTRY_MAX_sparmat_c)

lemma vals_bounded_row:
  "vals_bounded b m \<Longrightarrow> vec_at (rows m) r = Some vec \<Longrightarrow> e \<in> set (entries vec) \<Longrightarrow>
   ABSFUNC b (snd e) \<le> ENTRY_MAX b"
  by (auto simp: vals_bounded_def vec_at_def split: if_splits)

lemma vals_bounded_col:
  "vals_bounded b m \<Longrightarrow> vec_at (columns m) c = Some vec \<Longrightarrow> e \<in> set (entries vec) \<Longrightarrow>
   ABSFUNC b (snd e) \<le> ENTRY_MAX b"
  by (auto simp: vals_bounded_def vec_at_def split: if_splits)

lemma vals_bounded_upd:
  assumes vb: "vals_bounded b m"
    and rv: "\<forall>e \<in> set (entries rv'). ABSFUNC b (snd e) \<le> ENTRY_MAX b"
    and cv: "\<forall>e \<in> set (entries cv'). ABSFUNC b (snd e) \<le> ENTRY_MAX b"
  shows "vals_bounded b (m\<lparr>rows := vec_upd (rows m) r rv', columns := vec_upd (columns m) c cv'\<rparr>)"
proof -
  have "\<forall>e \<in> set (entries vec). ABSFUNC b (snd e) \<le> ENTRY_MAX b"
    if "vec \<in> set (vec_upd (rows m) r rv') \<union> set (vec_upd (columns m) c cv')" for vec
  proof -
    from that set_vec_upd [of "rows m" r rv'] set_vec_upd [of "columns m" c cv']
    have "vec = rv' \<or> vec = cv' \<or> vec \<in> set (rows m) \<union> set (columns m)" by blast
    with vb rv cv show ?thesis by (auto simp: vals_bounded_def)
  qed
  then show ?thesis by (simp add: vals_bounded_def)
qed

lemma get_m_entry_not_sentinel:
  assumes vb: "vals_bounded sparmat_c m" and g: "get_m_entry m r c = Inr v"
  shows "v \<noteq> ERR_MVAL"
proof -
  from g obtain rv where rv: "vec_at (rows m) r = Some rv" and v: "v = get_v_entry rv c"
    by (auto simp: get_m_entry_def Let_def split: if_splits option.splits)
  from get_v_entry_value [of rv c] v have "v = 0 \<or> (c, v) \<in> set (entries rv)" by simp
  then have "abs_int v \<le> ENTRY_MAX sparmat_c"
  proof
    assume "v = 0"
    then show ?thesis by (simp add: abs_int_zero ENTRY_MAX_sparmat_c)
  next
    assume "(c, v) \<in> set (entries rv)"
    from vals_bounded_row [OF vb rv this] show ?thesis by (simp add: ABSFUNC_sparmat_c)
  qed
  then show ?thesis by (rule bounded_not_sentinel)
qed

lemma remove_v_entry_not_sentinel:
  assumes bd: "\<forall>e \<in> set (entries vec). abs_int (snd e) \<le> ENTRY_MAX sparmat_c"
    and r: "remove_v_entry vec i = Inr (val, vec')"
  shows "val \<noteq> ERR_MVAL"
proof -
  from remove_v_entry_value [OF r] have "abs_int val \<le> ENTRY_MAX sparmat_c"
  proof
    assume "val = 0"
    then show ?thesis by (simp add: abs_int_zero ENTRY_MAX_sparmat_c)
  next
    assume "(i, val) \<in> set (entries vec)"
    with bd show ?thesis by fastforce
  qed
  then show ?thesis by (rule bounded_not_sentinel)
qed

lemma remove_m_entry_no_sentinel:
  assumes vb: "vals_bounded sparmat_c m"
  shows "remove_m_entry sparmat_c m r c \<noteq> Inl Sentinel"
proof (cases "check_m_indices m r c")
  case False
  then show ?thesis by (simp add: remove_m_entry_def)
next
  case True
  show ?thesis
  proof (cases "vec_at (rows m) r")
    case None
    with True show ?thesis by (simp add: remove_m_entry_def)
  next
    case (Some rv)
    note rv = this
    show ?thesis
    proof (cases "vec_at (columns m) c")
      case None
      with True rv show ?thesis by (simp add: remove_m_entry_def)
    next
      case (Some cv)
      note cv = this
      have rb: "\<forall>e \<in> set (entries rv). abs_int (snd e) \<le> ENTRY_MAX sparmat_c"
        using vals_bounded_row [OF vb rv] by (simp add: ABSFUNC_sparmat_c)
      have cb: "\<forall>e \<in> set (entries cv). abs_int (snd e) \<le> ENTRY_MAX sparmat_c"
        using vals_bounded_col [OF vb cv] by (simp add: ABSFUNC_sparmat_c)
      have s: "is_ERR_MVAL sparmat_c = (\<lambda>val. val = ERR_MVAL)" by (simp add: sparmat_c_def)
      show ?thesis
      proof (cases "remove_v_entry rv c")
        case (Inl e)
        then have "e = Deleted" by (auto simp: remove_v_entry_def split: if_splits option.splits)
        with True rv cv Inl show ?thesis by (simp add: remove_m_entry_def)
      next
        case (Inr p)
        obtain valr rv' where p: "p = (valr, rv')" by (cases p)
        with Inr have r1: "remove_v_entry rv c = Inr (valr, rv')" by simp
        from remove_v_entry_not_sentinel [OF rb r1] have nr: "valr \<noteq> ERR_MVAL" .
        show ?thesis
        proof (cases "remove_v_entry cv r")
          case (Inl e)
          then have "e = Deleted"
            by (auto simp: remove_v_entry_def split: if_splits option.splits)
          with True rv cv r1 nr Inl s show ?thesis by (simp add: remove_m_entry_def)
        next
          case (Inr q)
          obtain valc cv' where q: "q = (valc, cv')" by (cases q)
          with Inr have r2: "remove_v_entry cv r = Inr (valc, cv')" by simp
          from remove_v_entry_not_sentinel [OF cb r2] have nc: "valc \<noteq> ERR_MVAL" .
          from True rv cv r1 r2 nr nc s show ?thesis by (simp add: remove_m_entry_def)
        qed
      qed
    qed
  qed
qed

lemma remove_m_entry_bounded:
  assumes vb: "vals_bounded b m" and r: "remove_m_entry b m r c = Inr (v, m')"
  shows "vals_bounded b m'"
proof -
  from r obtain rv cv valr rv' valc cv' where
    rv: "vec_at (rows m) r = Some rv" and cv: "vec_at (columns m) c = Some cv"
    and r1: "remove_v_entry rv c = Inr (valr, rv')"
    and r2: "remove_v_entry cv r = Inr (valc, cv')"
    and m': "m' = m\<lparr>rows := vec_upd (rows m) r rv', columns := vec_upd (columns m) c cv'\<rparr>"
    by (auto simp: remove_m_entry_def split: if_splits option.splits sum.splits prod.splits)
  have "\<forall>e \<in> set (entries rv'). ABSFUNC b (snd e) \<le> ENTRY_MAX b"
    using remove_v_entry_entries [OF r1] vals_bounded_row [OF vb rv] by blast
  moreover have "\<forall>e \<in> set (entries cv'). ABSFUNC b (snd e) \<le> ENTRY_MAX b"
    using remove_v_entry_entries [OF r2] vals_bounded_col [OF vb cv] by blast
  ultimately show ?thesis unfolding m' using vb by (intro vals_bounded_upd)
qed

lemma add_m_entry_bounded:
  assumes vb: "vals_bounded sparmat_c m" and a: "add_m_entry sparmat_c m r c v = Inr m'"
  shows "vals_bounded sparmat_c m'"
proof (cases "v = 0")
  case True
  with a obtain w where "remove_m_entry sparmat_c m r c = Inr (w, m')"
    by (auto simp: add_m_entry_def split: if_splits sum.splits prod.splits)
  with vb show ?thesis by (rule remove_m_entry_bounded)
next
  case False
  from a have nb: "\<not> too_big sparmat_c v"
    by (auto simp: add_m_entry_def split: if_splits)
  then have "sint v \<le> 1073741823" "- 1073741823 \<le> sint v"
    by (auto simp: sparmat_c_def INT_MAX_def)
  then have av: "ABSFUNC sparmat_c v \<le> ENTRY_MAX sparmat_c"
    by (simp add: ABSFUNC_sparmat_c ENTRY_MAX_sparmat_c abs_int_abs)
  from a False obtain rv cv rv' cv' where
    rv: "vec_at (rows m) r = Some rv" and cv: "vec_at (columns m) c = Some cv"
    and r1: "add_v_entry rv c v = Inr rv'"
    and r2: "add_v_entry cv r v = Inr cv'"
    and m': "m' = m\<lparr>rows := vec_upd (rows m) r rv', columns := vec_upd (columns m) c cv'\<rparr>"
    by (auto simp: add_m_entry_def split: if_splits option.splits sum.splits)
  have "\<forall>e \<in> set (entries rv'). ABSFUNC sparmat_c (snd e) \<le> ENTRY_MAX sparmat_c"
    using add_v_entry_entries [OF r1] vals_bounded_row [OF vb rv] av by fastforce
  moreover have "\<forall>e \<in> set (entries cv'). ABSFUNC sparmat_c (snd e) \<le> ENTRY_MAX sparmat_c"
    using add_v_entry_entries [OF r2] vals_bounded_col [OF vb cv] av by fastforce
  ultimately show ?thesis unfolding m' using vb by (intro vals_bounded_upd)
qed

text \<open>
  In a matrix whose stored values all pass the library's own test against \<open>ENTRY_MAX\<close>,
  \<open>get_m_entry\<close> and \<open>remove_m_entry\<close> return \<open>ERR_MVAL\<close> exactly when they fail,
  \<open>remove_m_entry\<close> never mistakes a removed value for the sentinel, and a successful
  \<open>add_m_entry\<close> keeps the test passed. The test is \<open>abs(v) <= ENTRY_MAX\<close> in \<open>int\<close>
  arithmetic: it is passed by the values within \<open>ENTRY_MAX\<close> and by \<open>INT_MIN\<close>.
\<close>

lemma abs_int_bound:
  "abs_int v \<le> ENTRY_MAX sparmat_c \<longleftrightarrow>
     \<bar>sint v\<bar> \<le> ENTRY_MAX sparmat_c \<or> sint v = - 2147483648"
proof (cases "sint v = - 2147483648")
  case False
  then show ?thesis by (simp add: abs_int_abs)
next
  case True
  have "word_of_int (sint v) = v" by simp
  with True have "v = word_of_int (- 2147483648)" by (simp only:)
  then have "abs_int v = - 2147483648" by (simp add: abs_int_def)
  with True show ?thesis by (simp add: ENTRY_MAX_sparmat_c)
qed

lemma sentinel_within_bound:
  assumes vb: "vals_bounded sparmat_c m"
  shows "ENTRY_MAX sparmat_c = INT_MAX div 2 \<and> ENTRY_MAX sparmat_c < sint ERR_MVAL
       \<and> (get_m_entry_ret m r c = ERR_MVAL) = isl (get_m_entry m r c)
       \<and> (remove_m_entry_ret m r c = ERR_MVAL) = isl (remove_m_entry sparmat_c m r c)
       \<and> remove_m_entry sparmat_c m r c \<noteq> Inl Sentinel
       \<and> (case add_m_entry sparmat_c m r c v of
             Inl e \<Rightarrow> True | Inr m' \<Rightarrow> vals_bounded sparmat_c m')"
proof -
  have a: "ENTRY_MAX sparmat_c = INT_MAX div 2" by (simp add: sparmat_c_def)
  have b: "ENTRY_MAX sparmat_c < sint ERR_MVAL"
    by (simp add: ENTRY_MAX_sparmat_c sint_ERR_MVAL)
  have c: "(get_m_entry_ret m r c = ERR_MVAL) = isl (get_m_entry m r c)"
  proof (cases "get_m_entry m r c")
    case (Inl e)
    then show ?thesis by (simp add: get_m_entry_ret_def)
  next
    case (Inr w)
    with get_m_entry_not_sentinel [OF vb Inr] show ?thesis by (simp add: get_m_entry_ret_def)
  qed
  have d: "(remove_m_entry_ret m r c = ERR_MVAL) = isl (remove_m_entry sparmat_c m r c)"
  proof (cases "remove_m_entry sparmat_c m r c")
    case (Inl e)
    then show ?thesis by (simp add: remove_m_entry_ret_def)
  next
    case (Inr p)
    obtain w m' where p: "p = (w, m')" by (cases p)
    from Inr p have "w \<noteq> ERR_MVAL"
      by (auto simp: remove_m_entry_def sparmat_c_def
          split: if_splits option.splits sum.splits prod.splits)
    with Inr p show ?thesis by (simp add: remove_m_entry_ret_def)
  qed
  have e: "remove_m_entry sparmat_c m r c \<noteq> Inl Sentinel"
    using vb by (rule remove_m_entry_no_sentinel)
  have f: "case add_m_entry sparmat_c m r c v of
             Inl e \<Rightarrow> True | Inr m' \<Rightarrow> vals_bounded sparmat_c m'"
    using add_m_entry_bounded [OF vb] by (simp split: sum.splits)
  from a b c d e f show ?thesis by blast
qed

lemma sentinel_within_bound_example:
  "vals_bounded sparmat_c ovf_example
   \<and> get_m_entry ovf_example 2 1 = Inr 65537
   \<and> get_m_entry_ret ovf_example 2 1 \<noteq> ERR_MVAL
   \<and> remove_m_entry sparmat_c ovf_example 2 1 \<noteq> Inl Sentinel"
proof -
  have h: "vals_bounded sparmat_c ovf_example"
    by (simp add: vals_bounded_def ovf_example_def sparmat_c_def abs_int_def INT_MAX_def)
  have g: "get_m_entry ovf_example 2 1 = Inr 65537"
    by (simp add: get_m_entry_def ovf_example_def check_m_indices_def vec_at_def
        get_v_entry_def)
  from sentinel_within_bound [OF h, of 2 1 0] g
  have "get_m_entry_ret ovf_example 2 1 \<noteq> ERR_MVAL"
    and "remove_m_entry sparmat_c ovf_example 2 1 \<noteq> Inl Sentinel"
    by simp_all
  with h g show ?thesis by simp
qed

text \<open>The library's test is kept by \<open>add_m_rows\<close> and \<open>add_m_cols\<close> as well: what they store
  has passed it.\<close>

lemma set_merge_spec_sub:
  "set (merge_spec s es1 es2) \<subseteq> set es1 \<union> set (merge_writes s es1 es2)"
  by (induction s es1 es2 rule: merge_spec.induct) (auto simp: keep_nz_def)

lemma vals_bounded_transpose: "vals_bounded b (transpose_m m) = vals_bounded b m"
  by (auto simp: vals_bounded_def)

lemma vals_bounded_rowsI:
  fixes m :: "('v::zero) SparseMatrix"
  assumes wf: "wf_matrix m"
    and rws: "\<And>r e. 1 \<le> r \<Longrightarrow> r \<le> num_rows m \<Longrightarrow> e \<in> set (entries (row_of m r)) \<Longrightarrow>
               ABSFUNC b (snd e) \<le> ENTRY_MAX b"
  shows "vals_bounded b m"
  unfolding vals_bounded_def
proof (intro ballI)
  fix vec e
  assume vec: "vec \<in> set (rows m) \<union> set (columns m)" and e: "e \<in> set (entries vec)"
  from wf have lr: "int (length (rows m)) = num_rows m"
    and lc: "int (length (columns m)) = num_cols m" by (simp_all add: wf_matrix_def)
  from vec show "ABSFUNC b (snd e) \<le> ENTRY_MAX b"
  proof
    assume "vec \<in> set (rows m)"
    then obtain k where k: "k < length (rows m)" "vec = rows m ! k"
      by (auto simp: in_set_conv_nth)
    then have "row_of m (int k + 1) = vec" by (simp add: row_of_def)
    with rws [of "int k + 1" e] k lr e show ?thesis by simp
  next
    assume "vec \<in> set (columns m)"
    then obtain k where k: "k < length (columns m)" "vec = columns m ! k"
      by (auto simp: in_set_conv_nth)
    define c where "c = int k + 1"
    from k have cv: "col_of m c = vec" and c: "1 \<le> c" "c \<le> num_cols m"
      using lc by (simp_all add: col_of_def c_def)
    obtain r v where ev: "e = (r, v)" by (cases e)
    note ok = wf_col_at(2) [OF wf c]
    from ok e ev cv have r: "1 \<le> r" "r \<le> num_rows m" and srt: "idx_sorted (entries vec)"
      by (auto simp: vec_ok_def)
    from srt e ev have "find_entry (entries vec) r = Some v" by (simp add: mem_find_entry)
    with wf_bilateral [OF wf r c] cv have "find_entry (entries (row_of m r)) c = Some v"
      by simp
    then have "(c, v) \<in> set (entries (row_of m r))" by (rule find_entry_Some_mem)
    from rws [OF r this] ev show ?thesis by simp
  qed
qed

lemma add_m_rows_bounded:
  fixes m :: "('v::{zero,plus,times}) SparseMatrix"
  assumes wf: "wf_matrix m" and vb: "vals_bounded b m"
    and res: "add_m_rows b m r1 r2 s = Inr (mv, m')"
  shows "vals_bounded b m'"
proof -
  note R = add_m_rows_result [OF wf res]
  have old: "ABSFUNC b (snd e) \<le> ENTRY_MAX b"
    if "1 \<le> r" "r \<le> num_rows m" "e \<in> set (entries (row_of m r))" for r e
    using vb wf_row_at(1) [OF wf that(1,2)] that(3) by (rule vals_bounded_row)
  show ?thesis
  proof (rule vals_bounded_rowsI [OF R(1)])
    fix r e
    assume r: "1 \<le> r" "r \<le> num_rows m'" and e: "e \<in> set (entries (row_of m' r))"
    from r R(5) have r': "r \<le> num_rows m" by simp
    show "ABSFUNC b (snd e) \<le> ENTRY_MAX b"
    proof (cases "r = r1")
      case False
      with R(4) r(1) have "row_of m' r = row_of m r" by simp
      with e old [OF r(1) r'] show ?thesis by simp
    next
      case True
      with e R(2) have "e \<in> set (entries (row_of m r1))
          \<or> e \<in> set (merge_writes s (entries (row_of m r1)) (entries (row_of m r2)))"
        using set_merge_spec_sub [of s "entries (row_of m r1)" "entries (row_of m r2)"] by auto
      then show ?thesis
      proof
        assume "e \<in> set (entries (row_of m r1))"
        with old [of r1 e] r r' True show ?thesis by simp
      next
        assume "e \<in> set (merge_writes s (entries (row_of m r1)) (entries (row_of m r2)))"
        with R(8) show ?thesis by blast
      qed
    qed
  qed
qed

lemma add_m_cols_bounded:
  fixes m :: "('v::{zero,plus,times}) SparseMatrix"
  assumes wf: "wf_matrix m" and vb: "vals_bounded b m"
    and res: "add_m_cols b m c1 c2 s = Inr (mv, m')"
  shows "vals_bounded b m'"
proof -
  from res obtain mt where r: "add_m_rows b (transpose_m m) c1 c2 s = Inr (mv, mt)"
    and m': "m' = transpose_m mt"
    by (auto simp: add_m_cols_transpose split: sum.splits prod.splits)
  from wf vb have "vals_bounded b mt"
    by (intro add_m_rows_bounded [OF _ _ r]) (simp_all add: vals_bounded_transpose)
  with m' show ?thesis by (simp add: vals_bounded_transpose)
qed

text \<open>
  C10 (the code departs from the claim). The claim rests on every stored value being
  within \<open>ENTRY_MAX\<close> in absolute value. From the empty 2 x 1 matrix, \<open>add_m_entry\<close> stores
  65536 at (2, 1), within the bound. Adding 32768 times row 2 to row 1 makes
  \<open>2^31\<close>, beyond the bound. \<open>add_m_colrows\<close> computes the product in \<open>int\<close>
  arithmetic, where it is \<open>INT_MIN\<close>, and tests \<open>abs\<close> of the result, which is
  \<open>INT_MIN\<close> again and below \<open>ENTRY_MAX\<close>: the call succeeds, returns 0, and
  \<open>INT_MIN = -2147483648\<close> is stored at (1, 1), where \<open>get_m_entry\<close> reads it.
\<close>

theorem add_m_rows_stores_int_min:
  "init_s_matrix 2 1 = Inr empty_example
   \<and> add_m_entry sparmat_c empty_example 2 1 65536 = Inr pow_example
   \<and> add_m_rows sparmat_c pow_example 1 2 32768 = Inr (0, min_example)
   \<and> get_m_entry min_example 1 1 = Inr (- 2147483648)
   \<and> sint (- 2147483648 :: SM_value_t) = - 2147483648
   \<and> ENTRY_MAX sparmat_c < \<bar>sint (- 2147483648 :: SM_value_t)\<bar>"
proof -
  have a: "init_s_matrix 2 1 = Inr empty_example"
    by (simp add: init_s_matrix_def empty_example_def numeral_2_eq_2)
  have b: "add_m_entry sparmat_c empty_example 2 1 65536 = Inr pow_example"
    by code_simp
  have c: "add_m_rows sparmat_c pow_example 1 2 32768 = Inr (0, min_example)"
    by code_simp
  have d: "get_m_entry min_example 1 1 = Inr (- 2147483648)"
    by code_simp
  have e: "sint (- 2147483648 :: SM_value_t) = - 2147483648" by simp
  have f: "ENTRY_MAX sparmat_c < \<bar>sint (- 2147483648 :: SM_value_t)\<bar>"
    by (simp add: ENTRY_MAX_sparmat_c)
  from a b c d e f show ?thesis by blast
qed

section \<open>Bilateral consistency\<close>

text \<open>
  C1. Bilateral consistency is preserved by every public mutating operation. For a
  sparse matrix that satisfies the invariants of the data model (\<open>wf_matrix\<close>, of which
  the agreement of row view and column view on every cell is one part), each
  successful call of \<open>add_m_entry\<close>, \<open>remove_m_entry\<close>, \<open>erase_m_row\<close>, \<open>erase_m_column\<close>,
  \<open>add_m_rows\<close> or \<open>add_m_cols\<close> yields a matrix that satisfies them again: for every
  (r, c), row r has an entry at c iff column c has an entry at r, with the same value.
  It holds for both builds of the library.
\<close>

theorem bilateral_preserved:
  fixes m :: "('v::{zero,plus,times}) SparseMatrix"
  assumes wf: "wf_matrix m"
  shows "(add_m_entry b m r c v = Inr m1 \<longrightarrow> wf_matrix m1 \<and> bilateral m1)
       \<and> (remove_m_entry b m r c = Inr (w, m2) \<longrightarrow> wf_matrix m2 \<and> bilateral m2)
       \<and> (erase_m_row b m r d = Inr m3 \<longrightarrow> wf_matrix m3 \<and> bilateral m3)
       \<and> (erase_m_column b m c d = Inr m4 \<longrightarrow> wf_matrix m4 \<and> bilateral m4)
       \<and> (add_m_rows b m r r2 s = Inr (mv, m5) \<longrightarrow> wf_matrix m5 \<and> bilateral m5)
       \<and> (add_m_cols b m c c2 s = Inr (mv', m6) \<longrightarrow> wf_matrix m6 \<and> bilateral m6)"
proof -
  have bil: "wf_matrix x \<Longrightarrow> wf_matrix x \<and> bilateral x" for x :: "'v SparseMatrix"
    by (simp add: wf_matrix_def)
  have "add_m_entry b m r c v = Inr m1 \<longrightarrow> wf_matrix m1 \<and> bilateral m1"
    using wf_add_m_entry [OF wf] bil by blast
  moreover have "remove_m_entry b m r c = Inr (w, m2) \<longrightarrow> wf_matrix m2 \<and> bilateral m2"
    using wf_remove_m_entry [OF wf] bil by blast
  moreover have "erase_m_row b m r d = Inr m3 \<longrightarrow> wf_matrix m3 \<and> bilateral m3"
    using wf_erase_m_row(1) [OF wf] bil by blast
  moreover have "erase_m_column b m c d = Inr m4 \<longrightarrow> wf_matrix m4 \<and> bilateral m4"
    using wf_erase_m_column(1) [OF wf] bil by blast
  moreover have "add_m_rows b m r r2 s = Inr (mv, m5) \<longrightarrow> wf_matrix m5 \<and> bilateral m5"
    using add_m_rows_result(1) [OF wf] bil by blast
  moreover have "add_m_cols b m c c2 s = Inr (mv', m6) \<longrightarrow> wf_matrix m6 \<and> bilateral m6"
  proof
    assume a: "add_m_cols b m c c2 s = Inr (mv', m6)"
    then obtain t where t: "add_m_rows b (transpose_m m) c c2 s = Inr (mv', t)"
      and m6: "m6 = transpose_m t"
      by (auto simp: add_m_cols_transpose split: sum.splits prod.splits)
    from wf have "wf_matrix (transpose_m m)" by simp
    from add_m_rows_result(1) [OF this t] have "wf_matrix m6" by (simp add: m6)
    then show "wf_matrix m6 \<and> bilateral m6" by (rule bil)
  qed
  ultimately show ?thesis by blast
qed

theorem bilateral_preserved_witness:
  "wf_matrix ovf_example
   \<and> (case add_m_entry sparmat_c ovf_example 1 1 3 of Inl e \<Rightarrow> False | Inr m' \<Rightarrow> bilateral m')
   \<and> (case remove_m_entry sparmat_c ovf_example 2 1 of
         Inl e \<Rightarrow> False | Inr (w, m') \<Rightarrow> bilateral m')
   \<and> (case erase_m_row sparmat_c ovf_example 2 True of Inl e \<Rightarrow> False | Inr m' \<Rightarrow> bilateral m')
   \<and> (case erase_m_column sparmat_c ovf_example 1 False of
         Inl e \<Rightarrow> False | Inr m' \<Rightarrow> bilateral m')
   \<and> (case add_m_rows sparmat_c ovf_example 1 2 1 of
         Inl e \<Rightarrow> False | Inr (mv, m') \<Rightarrow> bilateral m')
   \<and> (case add_m_cols sparmat_c ovf_example 1 1 1 of
         Inl e \<Rightarrow> False | Inr (mv, m') \<Rightarrow> bilateral m')"
proof -
  have up: "{1..2} = {1, 2::int}" by auto
  have h: "wf_matrix ovf_example"
    by (simp add: wf_matrix_def ovf_example_def vec_ok_def idx_sorted_def bilateral_def
        row_of_def col_of_def up)
  have e1: "add_m_entry sparmat_c ovf_example 1 1 3 =
      Inr \<lparr>num_rows = 2, num_cols = 1,
           rows = [\<lparr>num_entries = 1, entries = [(1, 3)]\<rparr>,
                   \<lparr>num_entries = 1, entries = [(1, 65537)]\<rparr>],
           columns = [\<lparr>num_entries = 2, entries = [(1, 3), (2, 65537)]\<rparr>]\<rparr>"
    by (simp add: add_m_entry_def ovf_example_def check_m_indices_def vec_at_def vec_upd_def
        add_v_entry_def sparmat_c_def INT_MAX_def)
  have e2: "remove_m_entry sparmat_c ovf_example 2 1 =
      Inr (65537, \<lparr>num_rows = 2, num_cols = 1,
           rows = [\<lparr>num_entries = 0, entries = []\<rparr>, \<lparr>num_entries = 0, entries = []\<rparr>],
           columns = [\<lparr>num_entries = 0, entries = []\<rparr>]\<rparr>)"
    by (simp add: remove_m_entry_def ovf_example_def check_m_indices_def vec_at_def vec_upd_def
        remove_v_entry_def sparmat_c_def ERR_MVAL_def INT_MAX_def)
  have e3: "erase_m_row sparmat_c ovf_example 2 True =
      Inr \<lparr>num_rows = 2, num_cols = 1,
           rows = [\<lparr>num_entries = 0, entries = []\<rparr>, \<lparr>num_entries = - 1, entries = []\<rparr>],
           columns = [\<lparr>num_entries = 0, entries = []\<rparr>]\<rparr>"
    by (simp add: erase_m_row_def erase_m_colrow_def ovf_example_def check_m_indices_def
        vec_at_def vec_upd_def remove_v_entry_def sparmat_c_def ERR_MVAL_def INT_MAX_def)
  have e4: "erase_m_column sparmat_c ovf_example 1 False =
      Inr \<lparr>num_rows = 2, num_cols = 1,
           rows = [\<lparr>num_entries = 0, entries = []\<rparr>, \<lparr>num_entries = 0, entries = []\<rparr>],
           columns = [\<lparr>num_entries = 0, entries = []\<rparr>]\<rparr>"
    by (simp add: erase_m_column_def erase_m_colrow_def ovf_example_def check_m_indices_def
        vec_at_def vec_upd_def remove_v_entry_def sparmat_c_def ERR_MVAL_def INT_MAX_def)
  have e5: "add_m_rows sparmat_c ovf_example 1 2 1 =
      Inr (65537, \<lparr>num_rows = 2, num_cols = 1,
           rows = [\<lparr>num_entries = 1, entries = [(1, 65537)]\<rparr>,
                   \<lparr>num_entries = 1, entries = [(1, 65537)]\<rparr>],
           columns = [\<lparr>num_entries = 2, entries = [(1, 65537), (2, 65537)]\<rparr>]\<rparr>)"
    by (simp add: add_m_rows_def ovf_example_def check_m_indices_def vec_at_def vec_upd_def
        add_m_colrows_def merge_step_def add_v_entry_def sparmat_c_def abs_int_def
        INT_MAX_def)
  have e6: "add_m_cols sparmat_c ovf_example 1 1 1 =
      Inr (131074, \<lparr>num_rows = 2, num_cols = 1,
           rows = [\<lparr>num_entries = 0, entries = []\<rparr>,
                   \<lparr>num_entries = 1, entries = [(1, 131074)]\<rparr>],
           columns = [\<lparr>num_entries = 1, entries = [(2, 131074)]\<rparr>]\<rparr>)"
    by (simp add: add_m_cols_def ovf_example_def check_m_indices_def vec_at_def vec_upd_def
        add_m_colrows_def merge_step_def add_v_entry_def sparmat_c_def abs_int_def
        INT_MAX_def)
  have b1: "case add_m_entry sparmat_c ovf_example 1 1 3 of
              Inl e \<Rightarrow> False | Inr m' \<Rightarrow> bilateral m'"
    using bilateral_preserved [OF h, where b = sparmat_c and r = 1 and c = 1 and v = 3] e1
    by (simp only: sum.case; blast)
  have b2: "case remove_m_entry sparmat_c ovf_example 2 1 of
              Inl e \<Rightarrow> False | Inr (w, m') \<Rightarrow> bilateral m'"
    using bilateral_preserved [OF h, where b = sparmat_c and r = 2 and c = 1] e2
    by (simp only: sum.case prod.case; blast)
  have b3: "case erase_m_row sparmat_c ovf_example 2 True of
              Inl e \<Rightarrow> False | Inr m' \<Rightarrow> bilateral m'"
    using bilateral_preserved [OF h, where b = sparmat_c and r = 2 and d = True] e3
    by (simp only: sum.case; blast)
  have b4: "case erase_m_column sparmat_c ovf_example 1 False of
              Inl e \<Rightarrow> False | Inr m' \<Rightarrow> bilateral m'"
    using bilateral_preserved [OF h, where b = sparmat_c and c = 1 and d = False] e4
    by (simp only: sum.case; blast)
  have b5: "case add_m_rows sparmat_c ovf_example 1 2 1 of
              Inl e \<Rightarrow> False | Inr (mv, m') \<Rightarrow> bilateral m'"
    using bilateral_preserved [OF h, where b = sparmat_c and r = 1 and ?r2.0 = 2 and s = 1] e5
    by (simp only: sum.case prod.case; blast)
  have b6: "case add_m_cols sparmat_c ovf_example 1 1 1 of
              Inl e \<Rightarrow> False | Inr (mv, m') \<Rightarrow> bilateral m'"
    using bilateral_preserved [OF h, where b = sparmat_c and c = 1 and ?c2.0 = 1 and s = 1] e6
    by (simp only: sum.case prod.case; blast)
  from h b1 b2 b3 b4 b5 b6 show ?thesis by blast
qed

section \<open>Adding a multiple of a row to a row\<close>

lemma fold_max_Max:
  "fold (\<lambda>w x. max x (f w)) ws (a::int) = Max (insert a (f ` set ws))"
proof (induction ws arbitrary: a)
  case Nil
  show ?case by simp
next
  case (Cons w ws)
  have "Max (insert (max a (f w)) (f ` set ws)) = Max (insert a (insert (f w) (f ` set ws)))"
  proof (cases "set ws = {}")
    case True
    then show ?thesis by (simp add: max.commute)
  next
    case False
    then have ne: "f ` set ws \<noteq> {}" by simp
    have "Max (insert (max a (f w)) (f ` set ws)) = max (max a (f w)) (Max (f ` set ws))"
      using ne by simp
    also have "\<dots> = max a (max (f w) (Max (f ` set ws)))" by (simp add: max.assoc)
    also have "\<dots> = Max (insert a (insert (f w) (f ` set ws)))" using ne by simp
    finally show ?thesis .
  qed
  with Cons.IH [of "max a (f w)"] show ?case by simp
qed

lemma merge_writes_set:
  fixes es1 es2 :: "SM_value_t SparseEntry list"
  assumes s1: "idx_sorted es1" and s2: "idx_sorted es2"
  shows "set (merge_writes s es1 es2) =
    (\<lambda>c. (c, (case find_entry es1 c of None \<Rightarrow> 0 | Some v \<Rightarrow> v)
              + s * (case find_entry es2 c of None \<Rightarrow> 0 | Some v \<Rightarrow> v))) ` fst ` set es2"
    (is "set ?ws = ?g ` fst ` set es2")
proof -
  have sw: "idx_sorted ?ws" using s2 by (rule idx_sorted_merge_writes)
  have fw: "find_entry ?ws c =
      (case find_entry es2 c of None \<Rightarrow> None
       | Some v2 \<Rightarrow> Some (comb s (find_entry es1 c) v2))" for c
    using s1 s2 by (rule find_merge_writes)
  have val: "comb s (find_entry es1 c) v2 = snd (?g c)" if "find_entry es2 c = Some v2" for c v2
    using that by (cases "find_entry es1 c") (simp_all add: comb_def)
  show ?thesis
  proof (intro set_eqI iffI)
    fix w assume w: "w \<in> set ?ws"
    obtain c nv where cw: "w = (c, nv)" by (cases w)
    from w cw have "(c, nv) \<in> set ?ws" by simp
    with sw have f: "find_entry ?ws c = Some nv" by (rule mem_find_entry)
    show "w \<in> ?g ` fst ` set es2"
    proof (cases "find_entry es2 c")
      case None
      with f fw [of c] show ?thesis by simp
    next
      case (Some v2)
      from find_entry_Some_mem [OF Some] have "fst (c, v2) \<in> fst ` set es2" by (rule imageI)
      then have c: "c \<in> fst ` set es2" by simp
      from f fw [of c] Some have "nv = comb s (find_entry es1 c) v2" by simp
      with val [OF Some] have "w = ?g c" using cw by simp
      then show ?thesis using c by (rule image_eqI)
    qed
  next
    fix w assume "w \<in> ?g ` fst ` set es2"
    then obtain c where c: "c \<in> fst ` set es2" and w: "w = ?g c" by (rule imageE)
    from c obtain e where e: "e \<in> set es2" and ce: "c = fst e" by (rule imageE)
    then have "(c, snd e) \<in> set es2" by simp
    with s2 have v2: "find_entry es2 c = Some (snd e)" by (rule mem_find_entry)
    with fw [of c] have "find_entry ?ws c = Some (comb s (find_entry es1 c) (snd e))" by simp
    then have "(c, comb s (find_entry es1 c) (snd e)) \<in> set ?ws" by (rule find_entry_Some_mem)
    moreover have "w = (c, comb s (find_entry es1 c) (snd e))"
      using val [OF v2] w by simp
    ultimately show "w \<in> set ?ws" by simp
  qed
qed

lemma merge_writes_row_sum:
  fixes m :: "SM_value_t SparseMatrix"
  assumes "idx_sorted (entries (row_of m r1))" "idx_sorted (entries (row_of m r2))"
  shows "set (merge_writes s (entries (row_of m r1)) (entries (row_of m r2))) =
           (\<lambda>c. (c, row_sum m r1 r2 s c)) ` touched m r2"
  using merge_writes_set [OF assms, of s]
  by (simp add: row_sum_def touched_def get_v_entry_def)

lemma get_merge_spec:
  fixes es1 es2 :: "SM_value_t SparseEntry list"
  assumes s1: "idx_sorted es1" and s2: "idx_sorted es2"
  shows "(case find_entry (merge_spec s es1 es2) c of None \<Rightarrow> 0 | Some v \<Rightarrow> v) =
         (case find_entry es1 c of None \<Rightarrow> 0 | Some v \<Rightarrow> v)
          + s * (case find_entry es2 c of None \<Rightarrow> 0 | Some v \<Rightarrow> v)"
  by (simp add: find_merge_spec [OF s1 s2] nz_def comb_def split: option.splits)

text \<open>
  What \<open>add_m_rows\<close> does on a well-formed matrix, in the arithmetic of \<open>SM_value_t\<close>,
  where sums and products wrap around and \<open>abs\<close> is that of C. It fails when either row
  is deleted, and fails when one of the entries it computes exceeds \<open>ENTRY_MAX\<close> as
  \<open>abs\<close> measures it. Otherwise it succeeds: row \<open>r1\<close> becomes the entrywise \<open>r1 + s * r2\<close>
  (read as a full vector) with no zero stored, its chain stays strictly ascending, every
  column agrees with the new row, the other rows are untouched, and the value returned
  is the largest \<open>abs\<close> among the entries computed (0 when row \<open>r2\<close> is empty).
  \<open>add_m_cols\<close> is the same operation on the matrix with rows and columns exchanged.
\<close>

lemma add_m_rows_machine:
  fixes m :: "SM_value_t SparseMatrix"
  assumes wf: "wf_matrix m" and r1: "1 \<le> r1" "r1 \<le> num_rows m"
    and r2: "1 \<le> r2" "r2 \<le> num_rows m"
  shows "(num_entries (row_of m r1) = -1 \<or> num_entries (row_of m r2) = -1 \<longrightarrow>
            add_m_rows sparmat_c m r1 r2 s = Inl Deleted)
       \<and> (num_entries (row_of m r1) \<noteq> -1 \<and> num_entries (row_of m r2) \<noteq> -1
            \<and> (\<exists>c \<in> touched m r2. abs_int (row_sum m r1 r2 s c) > ENTRY_MAX sparmat_c) \<longrightarrow>
            add_m_rows sparmat_c m r1 r2 s = Inl TooBig)
       \<and> (num_entries (row_of m r1) \<noteq> -1 \<and> num_entries (row_of m r2) \<noteq> -1
            \<and> (\<forall>c \<in> touched m r2. abs_int (row_sum m r1 r2 s c) \<le> ENTRY_MAX sparmat_c) \<longrightarrow>
            (\<exists>m'. add_m_rows sparmat_c m r1 r2 s =
                     Inr (Max (insert 0 ((\<lambda>c. abs_int (row_sum m r1 r2 s c)) ` touched m r2)), m')
                \<and> wf_matrix m'
                \<and> (\<forall>c. get_v_entry (row_of m' r1) c = row_sum m r1 r2 s c)
                \<and> idx_sorted (entries (row_of m' r1))
                \<and> (\<forall>e \<in> set (entries (row_of m' r1)). snd e \<noteq> 0)
                \<and> (\<forall>c. 1 \<le> c \<and> c \<le> num_cols m \<longrightarrow>
                       get_v_entry (col_of m' c) r1 = row_sum m r1 r2 s c)
                \<and> (\<forall>r. 1 \<le> r \<and> r \<noteq> r1 \<longrightarrow> row_of m' r = row_of m r)))
       \<and> add_m_cols sparmat_c m c1 c2 s =
            (case add_m_rows sparmat_c (transpose_m m) c1 c2 s of
               Inl e \<Rightarrow> Inl e | Inr (mv, m') \<Rightarrow> Inr (mv, transpose_m m'))
       \<and> wf_matrix (transpose_m m)"
proof -
  let ?es1 = "entries (row_of m r1)" and ?es2 = "entries (row_of m r2)"
  let ?ws = "merge_writes s ?es1 ?es2"
  note a1 = wf_row_at [OF wf r1] and a2 = wf_row_at [OF wf r2]
  from a1(2) a2(2) have s1: "idx_sorted ?es1" and s2: "idx_sorted ?es2"
    by (simp_all add: vec_ok_def)
  have ws: "set ?ws = (\<lambda>c. (c, row_sum m r1 r2 s c)) ` touched m r2"
    using s1 s2 by (rule merge_writes_row_sum)
  have A: "num_entries (row_of m r1) = -1 \<or> num_entries (row_of m r2) = -1 \<longrightarrow>
            add_m_rows sparmat_c m r1 r2 s = Inl Deleted"
    using add_m_rows_deleted [OF wf r1 r2] by blast
  have B: "num_entries (row_of m r1) \<noteq> -1 \<and> num_entries (row_of m r2) \<noteq> -1
            \<and> (\<exists>c \<in> touched m r2. abs_int (row_sum m r1 r2 s c) > ENTRY_MAX sparmat_c) \<longrightarrow>
            add_m_rows sparmat_c m r1 r2 s = Inl TooBig"
  proof (intro impI, elim conjE bexE)
    fix c assume l1: "num_entries (row_of m r1) \<noteq> -1" and l2: "num_entries (row_of m r2) \<noteq> -1"
      and c: "c \<in> touched m r2" and big: "ENTRY_MAX sparmat_c < abs_int (row_sum m r1 r2 s c)"
    from c ws have "(c, row_sum m r1 r2 s c) \<in> set ?ws" by simp
    with big have "\<exists>w \<in> set ?ws. ABSFUNC sparmat_c (snd w) > ENTRY_MAX sparmat_c"
      by (intro bexI [of _ "(c, row_sum m r1 r2 s c)"]) (simp_all add: ABSFUNC_sparmat_c)
    with wf r1 r2 l1 l2 show "add_m_rows sparmat_c m r1 r2 s = Inl TooBig"
      by (rule add_m_rows_fails)
  qed
  have C: "num_entries (row_of m r1) \<noteq> -1 \<and> num_entries (row_of m r2) \<noteq> -1
            \<and> (\<forall>c \<in> touched m r2. abs_int (row_sum m r1 r2 s c) \<le> ENTRY_MAX sparmat_c) \<longrightarrow>
            (\<exists>m'. add_m_rows sparmat_c m r1 r2 s =
                     Inr (Max (insert 0 ((\<lambda>c. abs_int (row_sum m r1 r2 s c)) ` touched m r2)), m')
                \<and> wf_matrix m'
                \<and> (\<forall>c. get_v_entry (row_of m' r1) c = row_sum m r1 r2 s c)
                \<and> idx_sorted (entries (row_of m' r1))
                \<and> (\<forall>e \<in> set (entries (row_of m' r1)). snd e \<noteq> 0)
                \<and> (\<forall>c. 1 \<le> c \<and> c \<le> num_cols m \<longrightarrow>
                       get_v_entry (col_of m' c) r1 = row_sum m r1 r2 s c)
                \<and> (\<forall>r. 1 \<le> r \<and> r \<noteq> r1 \<longrightarrow> row_of m' r = row_of m r))"
  proof (intro impI, elim conjE)
    assume l1: "num_entries (row_of m r1) \<noteq> -1" and l2: "num_entries (row_of m r2) \<noteq> -1"
      and bd: "\<forall>c \<in> touched m r2. abs_int (row_sum m r1 r2 s c) \<le> ENTRY_MAX sparmat_c"
    have bd': "\<forall>w \<in> set ?ws. ABSFUNC sparmat_c (snd w) \<le> ENTRY_MAX sparmat_c"
      using bd by (auto simp: ws ABSFUNC_sparmat_c)
    from add_m_rows_succeeds [OF wf r1 r2 l1 l2 bd'] obtain mv m' where
      res: "add_m_rows sparmat_c m r1 r2 s = Inr (mv, m')" by blast
    note p = add_m_rows_result [OF wf res]
    have "(\<lambda>w. abs_int (snd w)) ` set ?ws = (\<lambda>c. abs_int (row_sum m r1 r2 s c)) ` touched m r2"
      by (simp add: ws image_image)
    with p(9) have mv: "mv = Max (insert 0 ((\<lambda>c. abs_int (row_sum m r1 r2 s c)) ` touched m r2))"
      by (simp add: fold_max_Max ABSFUNC_sparmat_c)
    have row: "get_v_entry (row_of m' r1) c = row_sum m r1 r2 s c" for c
      using get_merge_spec [OF s1 s2, of s c]
      by (simp add: get_v_entry_def row_sum_def p(2))
    from p(1) p(5) r1 have ok': "vec_ok (num_cols m') (row_of m' r1)"
      by (intro wf_row_at(2)) simp_all
    then have srt: "idx_sorted (entries (row_of m' r1))"
      and nzv: "\<forall>e \<in> set (entries (row_of m' r1)). snd e \<noteq> 0"
      by (simp_all add: vec_ok_def)
    have col: "get_v_entry (col_of m' c) r1 = row_sum m r1 r2 s c"
      if "1 \<le> c \<and> c \<le> num_cols m" for c
    proof -
      from that p(5,6) r1 have
        "find_entry (entries (row_of m' r1)) c = find_entry (entries (col_of m' c)) r1"
        by (intro wf_bilateral [OF p(1)]) simp_all
      then have "get_v_entry (col_of m' c) r1 = get_v_entry (row_of m' r1) c"
        by (simp add: get_v_entry_def)
      with row show ?thesis by simp
    qed
    from res mv p(1) row srt nzv col p(4)
    show "\<exists>m'. add_m_rows sparmat_c m r1 r2 s =
                     Inr (Max (insert 0 ((\<lambda>c. abs_int (row_sum m r1 r2 s c)) ` touched m r2)), m')
                \<and> wf_matrix m'
                \<and> (\<forall>c. get_v_entry (row_of m' r1) c = row_sum m r1 r2 s c)
                \<and> idx_sorted (entries (row_of m' r1))
                \<and> (\<forall>e \<in> set (entries (row_of m' r1)). snd e \<noteq> 0)
                \<and> (\<forall>c. 1 \<le> c \<and> c \<le> num_cols m \<longrightarrow>
                       get_v_entry (col_of m' c) r1 = row_sum m r1 r2 s c)
                \<and> (\<forall>r. 1 \<le> r \<and> r \<noteq> r1 \<longrightarrow> row_of m' r = row_of m r)"
      by (intro exI [of _ m']) simp
  qed
  have D: "add_m_cols sparmat_c m c1 c2 s =
            (case add_m_rows sparmat_c (transpose_m m) c1 c2 s of
               Inl e \<Rightarrow> Inl e | Inr (mv, m') \<Rightarrow> Inr (mv, transpose_m m'))"
    by (rule add_m_cols_transpose)
  have E: "wf_matrix (transpose_m m)" using wf by simp
  from A B C D E show ?thesis by (intro conjI)
qed

lemma add_m_rows_machine_example:
  "wf_matrix ovf_example
   \<and> (\<exists>m'. add_m_rows sparmat_c ovf_example 1 2 1 = Inr (65537, m')
          \<and> (\<forall>c. get_v_entry (row_of m' 1) c = row_sum ovf_example 1 2 1 c))
   \<and> add_m_rows sparmat_c ovf_example 1 2 32768 = Inl TooBig
   \<and> add_m_rows sparmat_c tomb_example 1 2 1 = Inl Deleted"
proof -
  have up: "{1..2} = {1, 2::int}" by auto
  have h: "wf_matrix ovf_example"
    by (simp add: wf_matrix_def ovf_example_def vec_ok_def idx_sorted_def bilateral_def
        row_of_def col_of_def up)
  have ht: "wf_matrix tomb_example"
    by (simp add: wf_matrix_def tomb_example_def vec_ok_def idx_sorted_def bilateral_def
        row_of_def col_of_def up)
  have rng: "(1::int) \<le> 1" "1 \<le> num_rows ovf_example" "(1::int) \<le> 2" "2 \<le> num_rows ovf_example"
    by (simp_all add: ovf_example_def)
  have rngt: "(1::int) \<le> 1" "1 \<le> num_rows tomb_example" "(1::int) \<le> 2"
    "2 \<le> num_rows tomb_example"
    by (simp_all add: tomb_example_def)
  have live: "num_entries (row_of ovf_example 1) \<noteq> -1" "num_entries (row_of ovf_example 2) \<noteq> -1"
    by (simp_all add: row_of_def ovf_example_def)
  have tch: "touched ovf_example 2 = {1}"
    by (simp add: touched_def row_of_def ovf_example_def)
  have sum1: "row_sum ovf_example 1 2 1 1 = 65537"
    by (simp add: row_sum_def row_of_def ovf_example_def get_v_entry_def)
  have sum2: "row_sum ovf_example 1 2 32768 1 = 2147516416"
    by (simp add: row_sum_def row_of_def ovf_example_def get_v_entry_def)
  have ab1: "abs_int 65537 = 65537" by (simp add: abs_int_def)
  have ab2: "abs_int 2147516416 = 2147450880" by (simp add: abs_int_def)
  have dead: "num_entries (row_of tomb_example 2) = -1"
    by (simp add: row_of_def tomb_example_def)
  note t1 = add_m_rows_machine [OF h rng, of 1]
  note t2 = add_m_rows_machine [OF h rng, of 32768]
  note t3 = add_m_rows_machine [OF ht rngt, of 1]
  from t1 live have "\<exists>m'. add_m_rows sparmat_c ovf_example 1 2 1 = Inr (65537, m')
          \<and> (\<forall>c. get_v_entry (row_of m' 1) c = row_sum ovf_example 1 2 1 c)"
    by (simp add: tch sum1 ab1 ENTRY_MAX_sparmat_c) blast
  moreover from t2 live have "add_m_rows sparmat_c ovf_example 1 2 32768 = Inl TooBig"
    by (simp add: tch sum2 ab2 ENTRY_MAX_sparmat_c)
  moreover from t3 dead have "add_m_rows sparmat_c tomb_example 1 2 1 = Inl Deleted"
    by simp
  ultimately show ?thesis using h by blast
qed

text \<open>The machine sum is the sum of integers as long as that sum is within \<open>ENTRY_MAX\<close>.\<close>

lemma sint_sum_exact:
  fixes a s v :: SM_value_t
  assumes "\<bar>sint a + sint s * sint v\<bar> \<le> ENTRY_MAX sparmat_c"
  shows "sint (a + s * v) = sint a + sint s * sint v"
    and "abs_int (a + s * v) = \<bar>sint a + sint s * sint v\<bar>"
proof -
  have "a + s * v = word_of_int (sint a + sint s * sint v)" by simp
  then have "sint (a + s * v) = sint (word_of_int (sint a + sint s * sint v) :: SM_value_t)"
    by simp
  also have "\<dots> = signed_take_bit 31 (sint a + sint s * sint v)"
    by (simp only: sint_sbintrunc') simp
  also have "\<dots> = sint a + sint s * sint v"
    using assms by (intro signed_take_bit_int_eq_self) (auto simp: ENTRY_MAX_sparmat_c)
  finally show eq: "sint (a + s * v) = sint a + sint s * sint v" .
  from assms eq have "sint (a + s * v) \<noteq> - 2147483648"
    by (auto simp: ENTRY_MAX_sparmat_c)
  then show "abs_int (a + s * v) = \<bar>sint a + sint s * sint v\<bar>"
    by (simp add: abs_int_abs eq)
qed

lemma row_sum_exact:
  fixes m :: "SM_value_t SparseMatrix"
  assumes "\<bar>sint (get_v_entry (row_of m r1) c) + sint s * sint (get_v_entry (row_of m r2) c)\<bar>
             \<le> ENTRY_MAX sparmat_c"
  shows "sint (row_sum m r1 r2 s c)
           = sint (get_v_entry (row_of m r1) c) + sint s * sint (get_v_entry (row_of m r2) c)"
  using sint_sum_exact(1) [OF assms] by (simp add: row_sum_def)

text \<open>
  The part of the behaviour that does not depend on overflow, in mathematical integers:
  if neither row is deleted and no sum \<open>r1[c] + s * r2[c]\<close>, taken in the integers, exceeds
  \<open>ENTRY_MAX\<close> in absolute value, \<open>add_m_rows\<close> succeeds, row \<open>r1\<close> holds those integer sums,
  and the value returned is the largest absolute value among them.
\<close>

lemma untouched_zero:
  "c \<notin> touched m r2 \<Longrightarrow> get_v_entry (row_of m r2) c = 0"
  by (auto simp: touched_def get_v_entry_def split: option.splits dest: find_entry_Some_mem
      intro: rev_image_eqI)

lemma row_sum_int:
  fixes m :: "SM_value_t SparseMatrix"
  assumes "c \<in> touched m r2 \<longrightarrow> \<bar>int_sum m r1 r2 s c\<bar> \<le> ENTRY_MAX sparmat_c"
  shows "sint (row_sum m r1 r2 s c) = int_sum m r1 r2 s c"
proof (cases "c \<in> touched m r2")
  case True
  with assms show ?thesis
    using sint_sum_exact(1) [of "get_v_entry (row_of m r1) c" s "get_v_entry (row_of m r2) c"]
    by (simp add: int_sum_def row_sum_def)
next
  case False
  then show ?thesis by (simp add: untouched_zero int_sum_def row_sum_def)
qed

lemma add_m_rows_exact:
  fixes m :: "SM_value_t SparseMatrix"
  assumes wf: "wf_matrix m" and r1: "1 \<le> r1" "r1 \<le> num_rows m"
    and r2: "1 \<le> r2" "r2 \<le> num_rows m"
    and live: "num_entries (row_of m r1) \<noteq> -1" "num_entries (row_of m r2) \<noteq> -1"
    and bd: "\<forall>c \<in> touched m r2. \<bar>int_sum m r1 r2 s c\<bar> \<le> ENTRY_MAX sparmat_c"
  shows "\<exists>m'. add_m_rows sparmat_c m r1 r2 s =
                 Inr (Max (insert 0 ((\<lambda>c. \<bar>int_sum m r1 r2 s c\<bar>) ` touched m r2)), m')
            \<and> wf_matrix m'
            \<and> (\<forall>c. sint (get_v_entry (row_of m' r1) c) = int_sum m r1 r2 s c)
            \<and> idx_sorted (entries (row_of m' r1))
            \<and> (\<forall>e \<in> set (entries (row_of m' r1)). snd e \<noteq> 0)
            \<and> (\<forall>c. 1 \<le> c \<and> c \<le> num_cols m \<longrightarrow>
                   sint (get_v_entry (col_of m' c) r1) = int_sum m r1 r2 s c)
            \<and> (\<forall>r. 1 \<le> r \<and> r \<noteq> r1 \<longrightarrow> row_of m' r = row_of m r)"
proof -
  have ab: "abs_int (row_sum m r1 r2 s c) = \<bar>int_sum m r1 r2 s c\<bar>" if "c \<in> touched m r2" for c
    using bd that
      sint_sum_exact(2) [of "get_v_entry (row_of m r1) c" s "get_v_entry (row_of m r2) c"]
    by (simp add: int_sum_def row_sum_def)
  with bd have bd': "\<forall>c \<in> touched m r2. abs_int (row_sum m r1 r2 s c) \<le> ENTRY_MAX sparmat_c"
    by simp
  from ab have img: "(\<lambda>c. abs_int (row_sum m r1 r2 s c)) ` touched m r2
      = (\<lambda>c. \<bar>int_sum m r1 r2 s c\<bar>) ` touched m r2"
    by (intro image_cong) simp_all
  have si: "sint (row_sum m r1 r2 s c) = int_sum m r1 r2 s c" for c
    using bd by (intro row_sum_int) simp
  from add_m_rows_machine [OF wf r1 r2, of s] live bd'
  obtain m' where res: "add_m_rows sparmat_c m r1 r2 s =
        Inr (Max (insert 0 ((\<lambda>c. abs_int (row_sum m r1 r2 s c)) ` touched m r2)), m')"
    and w: "wf_matrix m'"
    and g: "\<forall>c. get_v_entry (row_of m' r1) c = row_sum m r1 r2 s c"
    and srt: "idx_sorted (entries (row_of m' r1))"
    and nzr: "\<forall>e \<in> set (entries (row_of m' r1)). snd e \<noteq> 0"
    and cl: "\<forall>c. 1 \<le> c \<and> c \<le> num_cols m \<longrightarrow>
                       get_v_entry (col_of m' c) r1 = row_sum m r1 r2 s c"
    and oth: "\<forall>r. 1 \<le> r \<and> r \<noteq> r1 \<longrightarrow> row_of m' r = row_of m r"
    by blast
  from res img have res': "add_m_rows sparmat_c m r1 r2 s =
        Inr (Max (insert 0 ((\<lambda>c. \<bar>int_sum m r1 r2 s c\<bar>) ` touched m r2)), m')"
    by simp
  from g si have g': "\<forall>c. sint (get_v_entry (row_of m' r1) c) = int_sum m r1 r2 s c" by simp
  from cl si have cl': "\<forall>c. 1 \<le> c \<and> c \<le> num_cols m \<longrightarrow>
                   sint (get_v_entry (col_of m' c) r1) = int_sum m r1 r2 s c" by simp
  from res' w g' srt nzr cl' oth show ?thesis by blast
qed

text \<open>
  C2 (the code departs from the claim). The claim is that \<open>add_m_rows\<close> fails if an
  intermediate entry exceeds \<open>ENTRY_MAX\<close>, and otherwise leaves in row \<open>r1\<close> the entrywise
  sum and returns the largest absolute value produced. \<open>sum_example\<close> is built by
  \<open>add_m_entry\<close> and holds 1 at (1, 1) and 65537 at (2, 1). Adding 65536 times row 2 to
  row 1 makes the entry \<open>1 + 65536 * 65537 = 4295032833\<close>, beyond the bound, so the call
  ought to fail. \<open>add_m_colrows\<close> computes the sum in \<open>int\<close> arithmetic and tests the result
  only afterwards: the call succeeds, stores 65537 at (1, 1) and returns 65537.
\<close>

theorem add_m_rows_sum_wraps:
  "(case add_m_entry sparmat_c empty_example 1 1 1 of
      Inl e \<Rightarrow> Inl e | Inr m \<Rightarrow> add_m_entry sparmat_c m 2 1 65537) = Inr sum_example
   \<and> get_m_entry sum_example 1 1 = Inr 1 \<and> get_m_entry sum_example 2 1 = Inr 65537
   \<and> ENTRY_MAX sparmat_c
        < sint (1 :: SM_value_t) + sint (65536 :: SM_value_t) * sint (65537 :: SM_value_t)
   \<and> add_m_rows sparmat_c sum_example 1 2 65536 =
       Inr (65537,
            \<lparr>num_rows = 2, num_cols = 1,
             rows = [\<lparr>num_entries = 1, entries = [(1, 65537)]\<rparr>,
                     \<lparr>num_entries = 1, entries = [(1, 65537)]\<rparr>],
             columns = [\<lparr>num_entries = 2, entries = [(1, 65537), (2, 65537)]\<rparr>]\<rparr>)"
proof -
  have a: "(case add_m_entry sparmat_c empty_example 1 1 1 of
      Inl e \<Rightarrow> Inl e | Inr m \<Rightarrow> add_m_entry sparmat_c m 2 1 65537) = Inr sum_example"
    by code_simp
  have b: "get_m_entry sum_example 1 1 = Inr 1 \<and> get_m_entry sum_example 2 1 = Inr 65537"
    by code_simp
  have c: "ENTRY_MAX sparmat_c
        < sint (1 :: SM_value_t) + sint (65536 :: SM_value_t) * sint (65537 :: SM_value_t)"
    by (simp add: ENTRY_MAX_sparmat_c)
  have d: "add_m_rows sparmat_c sum_example 1 2 65536 =
       Inr (65537,
            \<lparr>num_rows = 2, num_cols = 1,
             rows = [\<lparr>num_entries = 1, entries = [(1, 65537)]\<rparr>,
                     \<lparr>num_entries = 1, entries = [(1, 65537)]\<rparr>],
             columns = [\<lparr>num_entries = 2, entries = [(1, 65537), (2, 65537)]\<rparr>]\<rparr>)"
    by code_simp
  from a b c d show ?thesis by blast
qed

section \<open>The column sweep of an elimination\<close>











section \<open>Eliminations leave no trace of the generator\<close>








text \<open>
  The assumption on the pivot is needed. A magnitude that rates a non-unit as 1, as the
  spec's formula \<open>max(|a|,|b|)\<close> rates \<open>1 - t\<close>, lets \<open>find_v_unit\<close> return a pivot that is
  not invertible: for the complex of ranks 3 and 2 with the differential
  \<open>two_by_three\<close>, the first elimination turns the second row into \<open>(1 - t, 1)\<close>;
  \<open>find_v_unit\<close> takes \<open>1 - t\<close>, the sweep leaves two entries in the row, and the run ends
  in "generator is not killed cleanly". With the magnitude \<open>|a| + |b|\<close> the same complex
  reduces.
\<close>

lemma pivot_must_be_unit:
  "reduce_s_complex_U sparmat_U_spec 2 [3, 2] [two_by_three] [5]
       = Some (Inl NotKilledCleanly)
   \<and> (\<exists>r. reduce_s_complex_U sparmat_U_sum 2 [3, 2] [two_by_three] [5] = Some (Inr r))"
proof -
  have a: "reduce_s_complex_U sparmat_U_spec 2 [3, 2] [two_by_three] [5]
       = Some (Inl NotKilledCleanly)"
    by code_simp
  have b: "\<not> isl (the (reduce_s_complex_U sparmat_U_sum 2 [3, 2] [two_by_three] [5]))
      \<and> reduce_s_complex_U sparmat_U_sum 2 [3, 2] [two_by_three] [5] \<noteq> None"
    by code_simp
  then obtain x where x: "reduce_s_complex_U sparmat_U_sum 2 [3, 2] [two_by_three] [5] = Some x"
    by blast
  with b obtain r where "x = Inr r" by (cases x) simp_all
  with a x show ?thesis by blast
qed

section \<open>The reducer on complexes without pivots\<close>

lemma init_ranks_loop_zero:
  "\<forall>rk \<in> set rks. rk = 0 \<Longrightarrow> init_ranks_loop rks i fg lg = (fg, lg)"
  by (induction rks arbitrary: i) auto

text \<open>
  C8. For a complex of at least one group whose ranks are all 0, \<open>reduce_s_complex_U\<close>
  returns without error the ranks all 0 and, for every differential, the placeholder
  \<open>gen_0\<close>. It does so on the branch taken when \<open>init_ranks\<close> returns -1, which comes
  before the loop over the groups: no matrix is initialised and \<open>eliminate_gens\<close> is not
  called.
\<close>

theorem reduce_empty_complex:
  fixes b :: "('a::comm_ring_1) Uval sm_build"
  assumes size: "1 \<le> c_size" and len: "c_size \<le> int (length c_ranks)"
    and zero: "\<forall>rk \<in> set (take (nat c_size) c_ranks). rk = 0"
  shows "reduce_s_complex_U b c_size c_ranks d_matrices matr_lengths =
           Some (Inr \<lparr>numgen_vec = replicate (nat c_size) 0,
                      matrices_vec0 = replicate (nat (c_size - 1)) None,
                      matrices_vec1 = replicate (nat (c_size - 1)) None\<rparr>)
       \<and> (\<exists>st0 st :: 'a reducer. malloc_arrays c_size = Inr st0
            \<and> init_ranks (st0\<lparr>pari_matrices := d_matrices, num_entries_g := matr_lengths\<rparr>)
                 c_ranks = Inr (False, st))"
proof -
  define st0 :: "'a reducer" where "st0 =
     \<lparr>cplx_size = c_size, first_group = 0, last_group = 0,
      cplx_matrices = replicate (nat (c_size - 1)) null_matrix,
      cplx_group_ranks = replicate (nat c_size) 0,
      num_generators = replicate (nat c_size) 0,
      pari_matrices = [], num_entries_g = []\<rparr>"
  have ma: "malloc_arrays c_size = Inr st0"
    using size by (simp add: malloc_arrays_def st0_def)
  let ?st1 = "st0\<lparr>pari_matrices := d_matrices, num_entries_g := matr_lengths\<rparr>"
  let ?rks = "take (nat c_size) c_ranks"
  define st where "st = ?st1\<lparr>num_generators := ?rks, cplx_group_ranks := ?rks,
                        first_group := -1, last_group := -1\<rparr>"
  have lp: "init_ranks_loop ?rks 0 (-1) (-1) = (-1, -1)"
    using zero by (rule init_ranks_loop_zero)
  have ir: "init_ranks ?st1 c_ranks = Inr (False, st)"
    using len lp by (simp add: init_ranks_def st_def st0_def Let_def)
  have fp: "feed2pari b st = Inr \<lparr>numgen_vec = replicate (nat c_size) 0,
                      matrices_vec0 = replicate (nat (c_size - 1)) None,
                      matrices_vec1 = replicate (nat (c_size - 1)) None\<rparr>"
    by (simp add: feed2pari_def st_def st0_def)
  from ma ir fp have "reduce_s_complex_U b c_size c_ranks d_matrices matr_lengths =
           Some (Inr \<lparr>numgen_vec = replicate (nat c_size) 0,
                      matrices_vec0 = replicate (nat (c_size - 1)) None,
                      matrices_vec1 = replicate (nat (c_size - 1)) None\<rparr>)"
    by (simp add: reduce_s_complex_U_def)
  with ma ir show ?thesis by blast
qed

theorem reduce_empty_complex_witness:
  "reduce_s_complex_U sparmat_U_spec 3 [0, 0, 0] [VECSMALL [], VECSMALL []] [0, 0] =
     Some (Inr \<lparr>numgen_vec = [0, 0, 0], matrices_vec0 = [None, None],
                matrices_vec1 = [None, None]\<rparr>)"
proof -
  have h1: "(1::int) \<le> 3" by simp
  have h2: "(3::int) \<le> int (length [0, 0, 0 :: int])" by simp
  have h3: "\<forall>rk \<in> set (take (nat 3) [0, 0, 0 :: int]). rk = 0" by simp
  have r: "replicate (nat 3) (0::int) = [0, 0, 0]"
    "replicate (nat (3 - 1)) (None :: int list list option) = [None, None]"
    by (simp_all add: numeral_3_eq_3 numeral_2_eq_2)
  from reduce_empty_complex [OF h1 h2 h3, of sparmat_U_spec "[VECSMALL [], VECSMALL []]" "[0, 0]"]
  show ?thesis by (simp only: r)
qed

text \<open>
  C6 (the code departs from the claim). The claim is that a run on a complex without a
  pivot leaves everything unchanged and returns the ranks it was given. The complex
  with ranks 1, 0, 1 has no entry at all, so no row holds a pivot; the run does not
  return its ranks but stops with "init_s_matrix: number of rows or columns is too
  small": \<open>init_diff_matrix\<close> tests only whether the differential lies between
  \<open>first_group\<close> and \<open>last_group\<close>, and asks for a matrix with no rows for the empty
  group between them (\<open>feed2pari\<close> does skip such groups).
\<close>

theorem reduce_stops_on_inner_empty_group:
  fixes b :: "('a::comm_ring_1) Uval sm_build"
  shows "reduce_s_complex_U b 3 [1, 0, 1] [VECSMALL [], VECSMALL []] [0, 0]
           = Some (Inl (Lib TooSmall))"
proof -
  have up: "[1..2] = [1, 2::int]" by (simp add: upto_rec1)
  have n3: "nat 3 = Suc (Suc (Suc 0))" "nat (3 - 1) = Suc (Suc 0)" by simp_all
  show ?thesis
    by (simp add: reduce_s_complex_U_def malloc_arrays_def init_ranks_def n3 up
        elim_while.simps eliminate_gens_def ensure_init_def init_diff_matrix_def
        init_s_matrix_def arr_at_def null_matrix_def Let_def numeral_2_eq_2)
qed

text \<open>Once the differential into the group is initialised, the part of that claim about
  \<open>eliminate_gens\<close> does hold: a pass over rows none of which holds a pivot changes
  nothing and reports no elimination.\<close>

lemma eliminate_loop_no_pivot:
  fixes st :: "('a::comm_ring_1) reducer"
  assumes m: "arr_at (cplx_matrices st) (grp - 1) = Some M"
    and rng: "\<forall>gen \<in> set gens. 1 \<le> gen \<and> gen \<le> int (length (rows M))"
    and nop: "\<forall>gen \<in> set gens. num_entries (row_of M gen) \<noteq> -1 \<longrightarrow>
               first_unit (ABSFUNC b) (entries (row_of M gen)) = None"
  shows "eliminate_loop b st grp do_short gens isfound = Inr (isfound, st)"
  using rng nop
proof (induction gens)
  case Nil
  show ?case by simp
next
  case (Cons gen gens)
  from Cons.prems(1) have "vec_at (rows M) gen = Some (row_of M gen)"
    by (simp add: vec_at_def row_of_def)
  with m Cons.prems(2) have "eliminate_gen b st grp do_short gen = Inr (False, st)"
    by (auto simp: eliminate_gen_def find_v_unit_def)
  with Cons show ?case by simp
qed

end
